theory Spec2Isabelle
  imports Complex_Main "HOL-Library.Log_Nat"
begin

section \<open>The backtest simulation of server/routes.ts\<close>

text \<open>
  The development embeds the handler of \<^verbatim>\<open>POST /api/backtests/run\<close> and the helper
  \<^verbatim>\<open>generateSimulatedBars\<close> (server/routes.ts), the request schema
  \<^verbatim>\<open>runBacktestSchema\<close> (shared/schema.ts) and the two store accessors the handler calls
  (server/storage.ts).

  A JavaScript \<^verbatim>\<open>number\<close> is modelled by the real number it denotes. Every arithmetic
  operation of the source whose exact result need not be a double is followed by the
  rounding operator \<open>fl\<close> of the environment, so that one text covers exact arithmetic
  (\<open>fl = exact\<close>) and IEEE double arithmetic (\<open>fl = binary64\<close>, defined below).
  Integer-valued quantities (counts, indices, millisecond time stamps) stay below
  \<open>2^53\<close> in the source and are modelled by \<open>int\<close> and \<open>nat\<close>.
  \<^verbatim>\<open>NaN\<close> arises in the modelled code only as the time value of an invalid date, which
  is \<open>None\<close> here.
\<close>

subsection \<open>Data\<close>

datatype side = BUY | SELL

text \<open>\<^verbatim>\<open>BacktestTrade\<close> of shared/schema.ts. The id \<^verbatim>\<open>`trade-${i}`\<close> is kept as the index
  \<open>i\<close>; an ISO time string is kept as the instant it denotes (milliseconds since the epoch).\<close>

record BacktestTrade =
  trade_id :: nat
  trade_symbol :: string
  trade_type :: side
  openPrice :: real
  closePrice :: real
  volume :: real
  profit :: real
  openTime :: int
  closeTime :: int

text \<open>A bar as pushed by \<^verbatim>\<open>generateSimulatedBars\<close>. The four prices are the decimal numbers
  denoted by the strings \<^verbatim>\<open>toFixed(5)\<close> returns.\<close>

record Bar =
  bar_time :: int
  bar_open :: real
  bar_high :: real
  bar_low :: real
  bar_close :: real
  tick_volume :: int
  spread :: int
  real_volume :: int

text \<open>\<^verbatim>\<open>RunBacktestInput\<close>: a request body of the right field types; \<^verbatim>\<open>runBacktestSchema\<close>
  then checks the lengths and the minimum balance.\<close>

record RunBacktestInput =
  strategyId :: string
  symbol :: string
  timeframe :: string
  startDate :: string
  endDate :: string
  initialBalance :: real

text \<open>\<^verbatim>\<open>BacktestResult\<close>: the six request fields and the computed ones.\<close>

record BacktestResult = RunBacktestInput +
  strategyName :: string
  finalBalance :: real
  totalTrades :: int
  winningTrades :: int
  losingTrades :: int
  winRate :: real
  totalProfit :: real
  maxDrawdown :: real
  sharpeRatio :: real
  profitFactor :: real
  equityCurve :: "real list"
  trades :: "BacktestTrade list"
  result_id :: string
  createdAt :: int

text \<open>The fields of \<^verbatim>\<open>Strategy\<close> that are set when a strategy is created; the handler reads
  only the name.\<close>

record Strategy =
  strategy_id :: string
  strategy_name :: string
  strategy_description :: string
  strategy_filename :: string
  strategy_content :: string
  strategy_isActive :: bool

text \<open>The mutable state the handler can touch: two maps of \<^verbatim>\<open>MemStorage\<close> and the file
  \<^verbatim>\<open>storage/backtests/latest_bars.csv\<close>, kept as the list of bars whose rows it holds
  (\<open>None\<close>: the file does not exist).\<close>

record store =
  strategies :: "string \<rightharpoonup> Strategy"
  backtestResults :: "string \<rightharpoonup> BacktestResult"
  latest_bars :: "Bar list option"

text \<open>What the handler takes from the JavaScript runtime: the rounding of arithmetic
  results, the successive values of \<^verbatim>\<open>Math.random()\<close>, the date parser, whether the two
  \<^verbatim>\<open>fs\<close> calls succeed, \<^verbatim>\<open>randomUUID()\<close> and the clock.\<close>

record env =
  fl :: "real \<Rightarrow> real"
  mathRandom :: "nat \<Rightarrow> real"
  dateParse :: "string \<Rightarrow> int option"
  fsOk :: bool
  randomUUID :: string
  now :: int

datatype response =
  Status400 "string list"
  | Status404
  | Status500
  | Ok200 BacktestResult nat

subsection \<open>Runtime functions\<close>

definition exact :: "real \<Rightarrow> real" where
  "exact x = x"

text \<open>Double arithmetic: a result is rounded to the nearest number with a 53-bit
  significand, to the even significand on a tie. \<open>expo x\<close> is the binary exponent of a
  positive \<open>x\<close>, that is \<open>2 powi expo x \<le> x < 2 powi (expo x + 1)\<close>. The exponent range is not
  bounded: \<open>binary64\<close> is the rounding of IEEE 754 binary64 wherever the result is neither
  subnormal nor beyond the largest double, which holds for every number the handler
  computes from doubles in the normal range.\<close>

definition expo :: "real \<Rightarrow> int" where
  "expo x = (if 1 \<le> x then bitlen \<lfloor>x\<rfloor> - 1 else - bitlen (\<lceil>1 / x\<rceil> - 1))"

definition roundEven :: "real \<Rightarrow> int" where
  "roundEven y =
     (let n = \<lfloor>y\<rfloor>; d = y - of_int n
      in if d < 1 / 2 then n else if 1 / 2 < d then n + 1 else if even n then n else n + 1)"

definition binary64 :: "real \<Rightarrow> real" where
  "binary64 x =
     (if x = 0 then 0
      else (let u = 2 powi (expo \<bar>x\<bar> - 52) in of_int (roundEven (x / u)) * u))"

definition maxTime :: int where
  "maxTime = 8640000000000000"

text \<open>\<^verbatim>\<open>new Date(s).getTime()\<close>: the parsed time value, clipped as the Date constructor does;
  \<open>None\<close> is \<^verbatim>\<open>NaN\<close>.\<close>

definition getTime :: "env \<Rightarrow> string \<Rightarrow> int option" where
  "getTime e s =
     (case dateParse e s of
        None \<Rightarrow> None
      | Some t \<Rightarrow> if \<bar>t\<bar> \<le> maxTime then Some t else None)"

text \<open>\<^verbatim>\<open>new Date(t).toISOString()\<close>: throws a RangeError (\<open>None\<close>) on an invalid date.\<close>

definition toISOString :: "int option \<Rightarrow> int option" where
  "toISOString t =
     (case t of
        None \<Rightarrow> None
      | Some v \<Rightarrow> if \<bar>v\<bar> \<le> maxTime then Some v else None)"

text \<open>The number denoted by \<^verbatim>\<open>x.toFixed(5)\<close>: the nearest multiple of \<open>10^-5\<close>, the larger
  in magnitude on a tie.\<close>

definition toFixed5 :: "real \<Rightarrow> real" where
  "toFixed5 x =
     (if x < 0 then - (of_int \<lfloor>(- x) * 100000 + 1 / 2\<rfloor> / 100000)
      else of_int \<lfloor>x * 100000 + 1 / 2\<rfloor> / 100000)"

fun startsWith :: "string \<Rightarrow> string \<Rightarrow> bool" where
  "startsWith s [] = True"
| "startsWith [] (c # cs) = False"
| "startsWith (d # ds) (c # cs) = (d = c \<and> startsWith ds cs)"

fun str_includes :: "string \<Rightarrow> string \<Rightarrow> bool" where
  "str_includes [] sub = (sub = [])"
| "str_includes (d # ds) sub = (startsWith (d # ds) sub \<or> str_includes ds sub)"

subsection \<open>Validation (runBacktestSchema)\<close>

definition validate :: "RunBacktestInput \<Rightarrow> string list" where
  "validate req =
     (if length (strategyId req) < 1 then [''Strategy is required''] else []) @
     (if length (symbol req) < 1 then [''Symbol is required''] else []) @
     (if length (timeframe req) < 1 then [''Timeframe is required''] else []) @
     (if length (startDate req) < 1 then [''Start date is required''] else []) @
     (if length (endDate req) < 1 then [''End date is required''] else []) @
     (if initialBalance req < 100 then [''Minimum balance is 100''] else [])"

subsection \<open>generateSimulatedBars\<close>

definition interval :: int where
  "interval = 5 * 60 * 1000"

text \<open>One pass of the loop body at time \<open>time\<close> with last close \<open>price\<close>; the five draws are
  \<open>c, \<dots>, c + 4\<close>. Returns the bar and the new price.\<close>

definition makeBar :: "env \<Rightarrow> real \<Rightarrow> int \<Rightarrow> real \<Rightarrow> nat \<Rightarrow> Bar \<times> real" where
  "makeBar e volatility time price c =
     (let change = fl e (fl e (fl e (mathRandom e c - fl e (1 / 2)) * 2) * volatility);
          opn = price;
          cls = fl e (price + change);
          high = fl e (max opn cls + fl e (mathRandom e (c + 1) * volatility));
          low = fl e (min opn cls - fl e (mathRandom e (c + 2) * volatility))
      in (\<lparr> bar_time = time,
             bar_open = toFixed5 opn,
             bar_high = toFixed5 high,
             bar_low = toFixed5 low,
             bar_close = toFixed5 cls,
             tick_volume = \<lfloor>fl e (mathRandom e (c + 3) * 1000)\<rfloor> + 100,
             spread = \<lfloor>fl e (mathRandom e (c + 4) * 20)\<rfloor> + 5,
             real_volume = 0 \<rparr>, cls))"

function barLoop ::
  "env \<Rightarrow> real \<Rightarrow> int \<Rightarrow> int \<Rightarrow> real \<Rightarrow> nat \<Rightarrow> Bar list \<Rightarrow> (Bar list \<times> nat) option" where
  "barLoop e volatility endT time price c bars =
     (if time < endT then
        (case toISOString (Some time) of
           None \<Rightarrow> None
         | Some stamp \<Rightarrow>
             (case makeBar e volatility stamp price c of
                (bar, price') \<Rightarrow>
                  barLoop e volatility endT (time + interval) price' (c + 5) (bars @ [bar])))
      else Some (bars, c))"
  by pat_completeness auto
termination
  by (relation "measure (\<lambda>(e, volatility, endT, time, price, c, bars). nat (endT - time))")
     (auto simp: interval_def)

declare barLoop.simps [simp del]

text \<open>\<open>None\<close>: an exception left the function. The result also carries the index of the
  next unused draw.\<close>

definition generateSimulatedBars ::
  "env \<Rightarrow> string \<Rightarrow> string \<Rightarrow> string \<Rightarrow> nat \<Rightarrow> (Bar list \<times> nat) option" where
  "generateSimulatedBars e startD endD smb c =
     (let start = getTime e startD;
          endT = getTime e endD;
          price = (if str_includes smb ''JPY'' then 150 else fl e (11 / 10));
          volatility = (if str_includes smb ''JPY'' then fl e (1 / 2) else fl e (5 / 10000))
      in case (start, endT) of
           (Some s, Some t) \<Rightarrow> barLoop e volatility t s price c []
         | _ \<Rightarrow> Some ([], c))"

subsection \<open>The handler of POST /api/backtests/run\<close>

text \<open>The profit of a trade, from draw \<open>c\<close>.\<close>

definition tradeProfit :: "env \<Rightarrow> bool \<Rightarrow> nat \<Rightarrow> real" where
  "tradeProfit e isWin c =
     (if isWin then fl e (fl e (mathRandom e c * 200) + 50)
      else - (fl e (fl e (mathRandom e c * 150) + 30)))"

text \<open>The object pushed in pass \<open>i\<close>; its draws are \<open>c + 1, \<dots>, c + 4\<close>, the profit was
  drawn at \<open>c\<close>.\<close>

definition makeTrade ::
  "env \<Rightarrow> RunBacktestInput \<Rightarrow> nat \<Rightarrow> nat \<Rightarrow> real \<Rightarrow> int \<Rightarrow> int \<Rightarrow> BacktestTrade" where
  "makeTrade e req i c p ot ct =
     \<lparr> trade_id = i,
       trade_symbol = symbol req,
       trade_type = (if mathRandom e (c + 1) > fl e (1 / 2) then BUY else SELL),
       openPrice = fl e (1 + fl e (mathRandom e (c + 2) * fl e (1 / 10))),
       closePrice = fl e (1 + fl e (mathRandom e (c + 3) * fl e (1 / 10))),
       volume = fl e (fl e (1 / 10) + fl e (mathRandom e (c + 4) * fl e (4 / 10))),
       profit = p,
       openTime = ot,
       closeTime = ct \<rparr>"

text \<open>The time stamp \<^verbatim>\<open>new Date(new Date(startDate).getTime() + k * 3600000 * 4).toISOString()\<close>.\<close>

definition tradeTime :: "env \<Rightarrow> RunBacktestInput \<Rightarrow> nat \<Rightarrow> int option" where
  "tradeTime e req k =
     toISOString (map_option (\<lambda>t. t + int k * 3600000 * 4) (getTime e (startDate req)))"

text \<open>The \<^verbatim>\<open>for\<close> loop over the trades. The loop state is the next draw, \<^verbatim>\<open>equity\<close>,
  \<^verbatim>\<open>trades\<close> and \<^verbatim>\<open>equityCurve\<close>; \<open>None\<close>: an exception left the loop.\<close>

function tradeLoop ::
  "env \<Rightarrow> RunBacktestInput \<Rightarrow> int \<Rightarrow> int \<Rightarrow> nat \<Rightarrow>
   nat \<times> real \<times> BacktestTrade list \<times> real list \<Rightarrow>
   (nat \<times> real \<times> BacktestTrade list \<times> real list) option" where
  "tradeLoop e req nTotal nWin i (c, equity, ts, curve) =
     (if int i < nTotal then
        (let isWin = int i < nWin;
             p = tradeProfit e isWin c;
             equity' = fl e (equity + p)
         in case tradeTime e req i of
              None \<Rightarrow> None
            | Some ot \<Rightarrow>
                (case tradeTime e req (i + 1) of
                   None \<Rightarrow> None
                 | Some ct \<Rightarrow>
                     tradeLoop e req nTotal nWin (i + 1)
                       (c + 5, equity', ts @ [makeTrade e req i c p ot ct],
                        if i mod 3 = 0 then curve @ [equity'] else curve)))
      else Some (c, equity, ts, curve))"
  by pat_completeness auto
termination
  by (relation "measure (\<lambda>(e, req, nTotal, nWin, i, st). nat (nTotal - int i))") auto

declare tradeLoop.simps [simp del]

text \<open>\<^verbatim>\<open>storage.createBacktestResult\<close>: the store adds the id and the creation time.\<close>

definition createBacktestResult :: "env \<Rightarrow> store \<Rightarrow> BacktestResult \<Rightarrow> BacktestResult \<times> store" where
  "createBacktestResult e st result =
     (let newResult = result \<lparr> result_id := randomUUID e, createdAt := now e \<rparr>
      in (newResult, st \<lparr> backtestResults := (backtestResults st)(randomUUID e \<mapsto> newResult) \<rparr>))"

definition sumProfit :: "env \<Rightarrow> BacktestTrade list \<Rightarrow> real" where
  "sumProfit e ts = foldl (\<lambda>sum t. fl e (sum + profit t)) 0 ts"

definition runBacktest :: "env \<Rightarrow> store \<Rightarrow> RunBacktestInput \<Rightarrow> response \<times> store" where
  "runBacktest e st req =
     (if validate req \<noteq> [] then (Status400 (validate req), st)
      else case strategies st (strategyId req) of
        None \<Rightarrow> (Status404, st)
      | Some strategy \<Rightarrow>
         (let nTotal = \<lfloor>fl e (mathRandom e 0 * 50)\<rfloor> + 20;
              rate = fl e (45 + fl e (mathRandom e 1 * 25));
              nWin = \<lfloor>fl e (fl e (rate / 100) * of_int nTotal)\<rfloor>;
              nLose = nTotal - nWin
          in case tradeLoop e req nTotal nWin 0 (2, initialBalance req, [], [initialBalance req]) of
               None \<Rightarrow> (Status500, st)
             | Some (c, equity, ts, curve) \<Rightarrow>
                (let totalP = sumProfit e ts;
                     drawdown = fl e (fl e (mathRandom e c * 15) + 5);
                     factor = \<bar>fl e (sumProfit e (filter (\<lambda>t. profit t > 0) ts) /
                                max 1 \<bar>sumProfit e (filter (\<lambda>t. profit t < 0) ts)\<bar>)\<bar>
                 in case generateSimulatedBars e (startDate req) (endDate req) (symbol req) (c + 1) of
                      None \<Rightarrow> (Status500, st)
                    | Some (barsData, c') \<Rightarrow>
                       if \<not> fsOk e then (Status500, st)
                       else
                        (case createBacktestResult e (st \<lparr> latest_bars := Some barsData \<rparr>)
                                \<lparr> strategyId = strategyId req,
                                  symbol = symbol req,
                                  timeframe = timeframe req,
                                  startDate = startDate req,
                                  endDate = endDate req,
                                  initialBalance = initialBalance req,
                                  strategyName = strategy_name strategy,
                                  finalBalance = equity,
                                  totalTrades = nTotal,
                                  winningTrades = nWin,
                                  losingTrades = nLose,
                                  winRate = rate,
                                  totalProfit = totalP,
                                  maxDrawdown = drawdown,
                                  sharpeRatio = fl e (fl e (1 / 2) + fl e (mathRandom e c' * fl e (3 / 2))),
                                  profitFactor = factor,
                                  equityCurve = curve,
                                  trades = ts,
                                  result_id = [],
                                  createdAt = 0 \<rparr> of
                           (result, st') \<Rightarrow> (Ok200 result (length barsData), st')))))"


subsection \<open>Notions used in the statements\<close>

text \<open>The environment is a JavaScript runtime: \<^verbatim>\<open>Math.random()\<close> returns values in
  \<open>[0, 1)\<close>, and arithmetic is either exact or double arithmetic on draws that are doubles.\<close>

definition jsRuntime :: "env \<Rightarrow> bool" where
  "jsRuntime e \<longleftrightarrow>
     (\<forall>k. 0 \<le> mathRandom e k \<and> mathRandom e k < 1) \<and>
     (fl e = exact \<or> (fl e = binary64 \<and> (\<forall>k. binary64 (mathRandom e k) = mathRandom e k)))"

text \<open>What the proofs use of a rounding operator.\<close>

definition rounding :: "(real \<Rightarrow> real) \<Rightarrow> bool" where
  "rounding f \<longleftrightarrow>
     (\<forall>x y. x \<le> y \<longrightarrow> f x \<le> f y) \<and>
     (\<forall>x. f (f x) = f x) \<and>
     (\<forall>k::int. \<bar>k\<bar> \<le> 2 ^ 53 \<longrightarrow> f (of_int k) = of_int k) \<and>
     (\<forall>x. \<bar>f x - x\<bar> \<le> \<bar>x\<bar> / 2 ^ 53)"

text \<open>The three quantities drawn before the loop.\<close>

definition drawTotal :: "env \<Rightarrow> int" where
  "drawTotal e = \<lfloor>fl e (mathRandom e 0 * 50)\<rfloor> + 20"

definition drawRate :: "env \<Rightarrow> real" where
  "drawRate e = fl e (45 + fl e (mathRandom e 1 * 25))"

definition drawWins :: "env \<Rightarrow> int" where
  "drawWins e = \<lfloor>fl e (fl e (drawRate e / 100) * of_int (drawTotal e))\<rfloor>"

text \<open>The trade pushed in pass \<open>j\<close> of a loop whose first draw is \<open>c0\<close>.\<close>

definition tradeAt :: "env \<Rightarrow> RunBacktestInput \<Rightarrow> int \<Rightarrow> nat \<Rightarrow> nat \<Rightarrow> BacktestTrade" where
  "tradeAt e req nWin c0 j =
     makeTrade e req j (c0 + 5 * j) (tradeProfit e (int j < nWin) (c0 + 5 * j))
       (the (tradeTime e req j)) (the (tradeTime e req (j + 1)))"

definition addProfit :: "env \<Rightarrow> real \<Rightarrow> BacktestTrade \<Rightarrow> real" where
  "addProfit e s t = fl e (s + profit t)"

text \<open>The balance after the first \<open>m\<close> trades of \<open>ts\<close>, starting from \<open>b\<close>.\<close>

definition runningBalance :: "env \<Rightarrow> real \<Rightarrow> BacktestTrade list \<Rightarrow> nat \<Rightarrow> real" where
  "runningBalance e b ts m = foldl (addProfit e) b (take m ts)"

definition barBrackets :: "Bar \<Rightarrow> bool" where
  "barBrackets b \<longleftrightarrow>
     bar_low b \<le> min (bar_open b) (bar_close b) \<and> max (bar_open b) (bar_close b) \<le> bar_high b"

definition okResult :: "response \<Rightarrow> BacktestResult option" where
  "okResult r = (case r of Ok200 res k \<Rightarrow> Some res | _ \<Rightarrow> None)"

subsection \<open>Concrete inputs\<close>

definition demoStrategy :: Strategy where
  "demoStrategy =
     \<lparr> strategy_id = ''s1'', strategy_name = ''SMA Crossover'', strategy_description = [],
       strategy_filename = ''sma.py'', strategy_content = ''pass'', strategy_isActive = False \<rparr>"

definition demoStore :: store where
  "demoStore =
     \<lparr> strategies = [''s1'' \<mapsto> demoStrategy], backtestResults = Map.empty, latest_bars = None \<rparr>"

definition demoRequest :: RunBacktestInput where
  "demoRequest =
     \<lparr> strategyId = ''s1'', symbol = ''EURUSD'', timeframe = ''H1'',
       startDate = ''2024-01-01'', endDate = ''2024-01-01'', initialBalance = 10000 \<rparr>"

definition demoParse :: "string \<Rightarrow> int option" where
  "demoParse s =
     (if s = ''2024-01-01'' then Some 1704067200000
      else if s = ''2024-01-01T00:00:00.001Z'' then Some 1704067200001
      else if s = ''2024-01-01T00:10:00Z'' then Some 1704067800000
      else None)"

text \<open>Double arithmetic, every draw \<open>0\<close>.\<close>

definition zeroEnv :: env where
  "zeroEnv =
     \<lparr> fl = binary64, mathRandom = (\<lambda>k. 0), dateParse = demoParse,
       fsOk = True, randomUUID = ''id-1'', now = 1704067200000 \<rparr>"

definition ghostRequest :: RunBacktestInput where
  "ghostRequest =
     \<lparr> strategyId = ''ghost'', symbol = ''EURUSD'', timeframe = ''H1'',
       startDate = ''2024-01-01'', endDate = ''2024-01-01'', initialBalance = 50 \<rparr>"

definition ghostValidRequest :: RunBacktestInput where
  "ghostValidRequest =
     \<lparr> strategyId = ''ghost'', symbol = ''EURUSD'', timeframe = ''H1'',
       startDate = ''2024-01-01'', endDate = ''2024-01-01'', initialBalance = 10000 \<rparr>"

text \<open>Double arithmetic, the second draw \<open>1 / 2\<close>, every other draw \<open>0\<close>.\<close>

definition halfEnv :: env where
  "halfEnv =
     \<lparr> fl = binary64, mathRandom = (\<lambda>k. if k = 1 then 1 / 2 else 0), dateParse = demoParse,
       fsOk = True, randomUUID = ''id-1'', now = 1704067200000 \<rparr>"

text \<open>Double arithmetic; the draws of trade 0 are \<open>0\<close> (profit), \<open>3 / 4\<close> (side), \<open>1 / 2\<close> (open
  price), \<open>0\<close> (close price), \<open>0\<close> (volume).\<close>

definition bugEnv :: env where
  "bugEnv =
     \<lparr> fl = binary64,
       mathRandom = (\<lambda>k. if k = 3 then 3 / 4 else if k = 4 then 1 / 2 else 0),
       dateParse = demoParse, fsOk = True, randomUUID = ''id-1'', now = 1704067200000 \<rparr>"

text \<open>The demo request with an initial balance of \<open>10^17\<close>.\<close>

definition bigRequest :: RunBacktestInput where
  "bigRequest =
     \<lparr> strategyId = ''s1'', symbol = ''EURUSD'', timeframe = ''H1'',
       startDate = ''2024-01-01'', endDate = ''2024-01-01'', initialBalance = 100000000000000000 \<rparr>"

text \<open>Projections of the outcome of a run.\<close>

definition resultOf :: "response \<times> store \<Rightarrow> BacktestResult option" where
  "resultOf out = okResult (fst out)"

definition profitOfTrade :: "nat \<Rightarrow> BacktestResult \<Rightarrow> real" where
  "profitOfTrade i res = profit (trades res ! i)"

definition sideOfTrade :: "nat \<Rightarrow> BacktestResult \<Rightarrow> side" where
  "sideOfTrade i res = trade_type (trades res ! i)"

definition openPriceOfTrade :: "nat \<Rightarrow> BacktestResult \<Rightarrow> real" where
  "openPriceOfTrade i res = openPrice (trades res ! i)"

definition closePriceOfTrade :: "nat \<Rightarrow> BacktestResult \<Rightarrow> real" where
  "closePriceOfTrade i res = closePrice (trades res ! i)"

definition barCount :: "(Bar list \<times> nat) option \<Rightarrow> nat option" where
  "barCount r = map_option (\<lambda>(bars, c). length bars) r"

section \<open>Properties of the rounding\<close>

lemma bitlen_powi:
  assumes "0 < m"
  shows "(2::real) powi (bitlen m - 1) \<le> of_int m" and "of_int m + 1 \<le> (2::real) powi (bitlen m)"
proof -
  from bitlen_bounds[OF assms] have lo: "2 ^ nat (bitlen m - 1) \<le> m" and hi: "m < 2 ^ nat (bitlen m)"
    by auto
  have pos: "1 \<le> bitlen m"
    using assms by (simp add: bitlen_alt_def)
  have "(2::real) powi (bitlen m - 1) = 2 ^ nat (bitlen m - 1)"
    using pos by (simp add: power_int_def)
  also have "\<dots> = of_int (2 ^ nat (bitlen m - 1))" by simp
  also have "\<dots> \<le> of_int m" using lo by (simp only: of_int_le_iff)
  finally show "(2::real) powi (bitlen m - 1) \<le> of_int m" .
  from hi have "m + 1 \<le> 2 ^ nat (bitlen m)" by simp
  then have "(of_int (m + 1) :: real) \<le> of_int (2 ^ nat (bitlen m))" by (simp only: of_int_le_iff)
  also have "\<dots> = 2 powi (bitlen m)"
    using pos by (simp add: power_int_def)
  finally show "of_int m + 1 \<le> (2::real) powi (bitlen m)" by simp
qed

lemma expo_bounds:
  assumes "0 < x"
  shows "2 powi (expo x) \<le> x" and "x < 2 powi (expo x + 1)"
proof -
  have "2 powi (expo x) \<le> x \<and> x < 2 powi (expo x + 1)"
  proof (cases "1 \<le> x")
    case True
    then have m: "0 < \<lfloor>x\<rfloor>" by simp
    have e: "expo x = bitlen \<lfloor>x\<rfloor> - 1" using True by (simp add: expo_def)
    from bitlen_powi[OF m] have "(2::real) powi (expo x) \<le> of_int \<lfloor>x\<rfloor>" "of_int \<lfloor>x\<rfloor> + 1 \<le> (2::real) powi (expo x + 1)"
      by (simp_all add: e)
    then show ?thesis by linarith
  next
    case False
    define y where "y = 1 / x"
    define m where "m = \<lceil>y\<rceil> - 1"
    define k where "k = bitlen m"
    have y: "1 < y" using False assms by (simp add: y_def)
    then have m: "0 < m" unfolding m_def by linarith
    have my: "of_int m < y" "y \<le> of_int m + 1" unfolding m_def by linarith+
    have e: "expo x = - k" using False by (simp add: expo_def k_def m_def y_def)
    from bitlen_powi[OF m] have b: "(2::real) powi (k - 1) \<le> (of_int m :: real)" "of_int m + 1 \<le> (2::real) powi k"
      by (simp_all add: k_def)
    have xy: "x = 1 / y" using assms by (simp add: y_def)
    have "y \<le> 2 powi k" using my b by linarith
    then have lo: "2 powi (- k) \<le> x"
      using y unfolding xy by (simp add: power_int_minus field_simps)
    have "2 powi (k - 1) < y" using my b by linarith
    then have "1 / y < 1 / 2 powi (k - 1)"
      using y by (intro divide_strict_left_mono) (auto intro!: mult_pos_pos)
    moreover have "(2::real) powi (- k + 1) = 1 / 2 powi (k - 1)"
      using power_int_minus_divide[of "2::real" "k - 1"] by simp
    ultimately have hi: "x < 2 powi (- k + 1)"
      unfolding xy by simp
    show ?thesis using lo hi by (simp add: e)
  qed
  then show "2 powi (expo x) \<le> x" and "x < 2 powi (expo x + 1)" by simp_all
qed


lemma expo_unique:
  assumes "0 < x" "2 powi e \<le> x" "x < 2 powi (e + 1)"
  shows "expo x = e"
proof (rule ccontr)
  assume ne: "expo x \<noteq> e"
  show False
  proof (cases "expo x < e")
    case True
    then have "(2::real) powi (expo x + 1) \<le> 2 powi e"
      by (intro power_int_increasing) auto
    with expo_bounds(2)[OF assms(1)] assms(2) show False by linarith
  next
    case False
    with ne have "e + 1 \<le> expo x" by simp
    then have "(2::real) powi (e + 1) \<le> 2 powi (expo x)"
      by (intro power_int_increasing) auto
    with expo_bounds(1)[OF assms(1)] assms(3) show False by linarith
  qed
qed

lemma expo_mono:
  assumes "0 < x" "x \<le> y"
  shows "expo x \<le> expo y"
proof (rule ccontr)
  assume "\<not> expo x \<le> expo y"
  then have "expo y + 1 \<le> expo x" by simp
  then have "(2::real) powi (expo y + 1) \<le> 2 powi (expo x)"
    by (intro power_int_increasing) auto
  moreover have "0 < y" using assms by simp
  ultimately show False
    using expo_bounds(1)[OF assms(1)] expo_bounds(2)[of y] assms(2) by linarith
qed

lemma roundEven_of_int [simp]: "roundEven (of_int n) = n"
  by (simp add: roundEven_def)

lemma roundEven_floor: "\<lfloor>y\<rfloor> \<le> roundEven y" "roundEven y \<le> \<lfloor>y\<rfloor> + 1"
  by (simp_all add: roundEven_def Let_def)

lemma roundEven_near: "\<bar>of_int (roundEven y) - y\<bar> \<le> 1 / 2"
  unfolding roundEven_def Let_def by (auto; linarith)

lemma roundEven_mono:
  assumes "a \<le> b"
  shows "roundEven a \<le> roundEven b"
proof (cases "\<lfloor>a\<rfloor> = \<lfloor>b\<rfloor>")
  case True
  from assms have "a - of_int \<lfloor>a\<rfloor> \<le> b - of_int \<lfloor>a\<rfloor>" by simp
  then show ?thesis
    unfolding roundEven_def Let_def True[symmetric] by auto
next
  case False
  with assms have "\<lfloor>a\<rfloor> + 1 \<le> \<lfloor>b\<rfloor>"
    using floor_mono[OF assms] by linarith
  with roundEven_floor(2)[of a] roundEven_floor(1)[of b] show ?thesis by linarith
qed

lemma roundEven_minus: "roundEven (- y) = - roundEven y"
proof (cases "y = of_int \<lfloor>y\<rfloor>")
  case True
  then obtain n where "y = of_int n" ..
  then show ?thesis
    using roundEven_of_int[of "- n"] by simp
next
  case False
  then have fl: "\<lfloor>- y\<rfloor> = - \<lfloor>y\<rfloor> - 1"
    by linarith
  show ?thesis
    unfolding roundEven_def Let_def fl
    by (auto simp: algebra_simps; linarith?)
qed


lemma expo_scale:
  assumes "0 < x"
  shows "2 ^ 52 \<le> x / 2 powi (expo x - 52)" and "x / 2 powi (expo x - 52) < 2 ^ 53"
proof -
  define r where "r = x / 2 powi (expo x)"
  have u: "(2::real) powi (expo x - 52) = 2 powi (expo x) / 2 ^ 52"
    by (simp add: power_int_diff)
  have p: "(0::real) < 2 powi (expo x)" by simp
  have eq: "x / 2 powi (expo x - 52) = r * 2 ^ 52"
    unfolding u r_def by simp
  have "1 \<le> r"
    using expo_bounds(1)[OF assms] p unfolding r_def by (simp add: field_simps)
  moreover have "r < 2"
    using expo_bounds(2)[OF assms] p unfolding r_def by (simp add: field_simps power_int_add)
  ultimately show "2 ^ 52 \<le> x / 2 powi (expo x - 52)" and "x / 2 powi (expo x - 52) < 2 ^ 53"
    unfolding eq by simp_all
qed

lemma binary64_minus: "binary64 (- x) = - binary64 x"
  by (simp add: binary64_def Let_def roundEven_minus)

lemma binary64_pos:
  assumes "0 < x"
  shows "binary64 x = of_int (roundEven (x / 2 powi (expo x - 52))) * 2 powi (expo x - 52)"
  using assms by (simp add: binary64_def Let_def)

lemma roundEven_scaled:
  assumes "0 < x"
  shows "2 ^ 52 \<le> roundEven (x / 2 powi (expo x - 52))" and "roundEven (x / 2 powi (expo x - 52)) \<le> 2 ^ 53"
proof -
  have "roundEven (of_int (2 ^ 52)) \<le> roundEven (x / 2 powi (expo x - 52))"
    by (rule roundEven_mono) (use expo_scale(1)[OF assms] in simp)
  then show "2 ^ 52 \<le> roundEven (x / 2 powi (expo x - 52))"
    by (simp only: roundEven_of_int)
  have "roundEven (x / 2 powi (expo x - 52)) \<le> roundEven (of_int (2 ^ 53))"
    by (rule roundEven_mono) (use expo_scale(2)[OF assms] in simp)
  then show "roundEven (x / 2 powi (expo x - 52)) \<le> 2 ^ 53"
    by (simp only: roundEven_of_int)
qed

lemma binary64_range:
  assumes "0 < x"
  shows "2 powi (expo x) \<le> binary64 x" and "binary64 x \<le> 2 powi (expo x + 1)"
proof -
  let ?u = "(2::real) powi (expo x - 52)"
  let ?n = "roundEven (x / ?u)"
  have u: "0 < ?u" by simp
  have lo: "(2::real) powi (expo x) = 2 ^ 52 * ?u"
    by (simp add: power_int_diff)
  have hi: "(2::real) powi (expo x + 1) = 2 ^ 53 * ?u"
    by (simp add: power_int_diff power_int_add)
  have "(of_int (2 ^ 52) :: real) \<le> of_int ?n"
    using roundEven_scaled(1)[OF assms] by (simp only: of_int_le_iff)
  then have "2 ^ 52 * ?u \<le> of_int ?n * ?u"
    using u by simp
  then show "2 powi (expo x) \<le> binary64 x"
    unfolding binary64_pos[OF assms] lo .
  have "(of_int ?n :: real) \<le> of_int (2 ^ 53)"
    using roundEven_scaled(2)[OF assms] by (simp only: of_int_le_iff)
  then have "of_int ?n * ?u \<le> 2 ^ 53 * ?u"
    using u by simp
  then show "binary64 x \<le> 2 powi (expo x + 1)"
    unfolding binary64_pos[OF assms] hi .
qed

lemma binary64_mono_pos:
  assumes "0 < x" "x \<le> y"
  shows "binary64 x \<le> binary64 y"
proof -
  have y: "0 < y" using assms by simp
  show ?thesis
  proof (cases "expo x = expo y")
    case True
    let ?u = "(2::real) powi (expo y - 52)"
    have "x / ?u \<le> y / ?u" using assms(2) by (simp add: divide_right_mono)
    then have "roundEven (x / ?u) \<le> roundEven (y / ?u)" by (rule roundEven_mono)
    then have "(of_int (roundEven (x / ?u)) :: real) \<le> of_int (roundEven (y / ?u))"
      by (simp only: of_int_le_iff)
    then show ?thesis
      unfolding binary64_pos[OF assms(1)] binary64_pos[OF y] True
      by (simp add: mult_right_mono)
  next
    case False
    with expo_mono[OF assms] have "expo x + 1 \<le> expo y" by simp
    then have "(2::real) powi (expo x + 1) \<le> 2 powi (expo y)"
      by (intro power_int_increasing) auto
    with binary64_range(2)[OF assms(1)] binary64_range(1)[OF y] show ?thesis by linarith
  qed
qed

lemma binary64_nonneg: "0 \<le> x \<Longrightarrow> 0 \<le> binary64 x"
proof (cases "x = 0")
  case True
  then show ?thesis by (simp add: binary64_def)
next
  case False
  assume "0 \<le> x"
  with False have x: "0 < x" by simp
  have "(0::real) \<le> 2 powi (expo x)" by simp
  with binary64_range(1)[OF x] show ?thesis by linarith
qed

lemma binary64_mono: "x \<le> y \<Longrightarrow> binary64 x \<le> binary64 y"
proof -
  assume xy: "x \<le> y"
  consider "0 < x" | "x \<le> 0" "0 \<le> y" | "y < 0" by linarith
  then show ?thesis
  proof cases
    case 1
    then show ?thesis using xy by (rule binary64_mono_pos)
  next
    case 2
    have "0 \<le> binary64 (- x)" using 2(1) by (intro binary64_nonneg) simp
    then have "binary64 x \<le> 0" by (simp add: binary64_minus)
    moreover have "0 \<le> binary64 y" using 2(2) by (rule binary64_nonneg)
    ultimately show ?thesis by linarith
  next
    case 3
    have "binary64 (- y) \<le> binary64 (- x)"
      using 3 xy by (intro binary64_mono_pos) simp_all
    then show ?thesis by (simp add: binary64_minus)
  qed
qed


lemma binary64_grid_pos:
  assumes "0 < m" "m < 2 ^ 53"
  shows "binary64 (of_int m * 2 powi q) = of_int m * 2 powi q"
proof -
  let ?x = "of_int m * (2::real) powi q"
  have x: "0 < ?x" using assms(1) by simp
  have "of_int m < (of_int (2 ^ 53) :: real)" using assms(2) by (simp only: of_int_less_iff)
  then have "?x < 2 ^ 53 * 2 powi q" by simp
  also have "\<dots> = 2 powi (q + 53)" by (simp add: power_int_add)
  finally have lt: "?x < 2 powi (q + 53)" .
  have e: "expo ?x < q + 53"
  proof (rule ccontr)
    assume "\<not> expo ?x < q + 53"
    then have "(2::real) powi (q + 53) \<le> 2 powi (expo ?x)"
      by (intro power_int_increasing) auto
    with expo_bounds(1)[OF x] lt show False by linarith
  qed
  define u where "u = (2::real) powi (expo ?x - 52)"
  define d where "d = nat (q - (expo ?x - 52))"
  have u: "0 < u" by (simp add: u_def)
  have q: "q = (expo ?x - 52) + int d" using e by (simp add: d_def)
  have "(2::real) powi q = 2 powi ((expo ?x - 52) + int d)"
    using q by simp
  also have "\<dots> = u * 2 ^ d"
    unfolding u_def by (simp add: power_int_add)
  finally have pq: "(2::real) powi q = u * 2 ^ d" .
  have sc: "?x / u = of_int (m * 2 ^ d)"
    unfolding pq using u by simp
  have "binary64 ?x = of_int (roundEven (?x / u)) * u"
    unfolding u_def by (rule binary64_pos[OF x])
  also have "\<dots> = of_int (m * 2 ^ d) * u"
    unfolding sc roundEven_of_int ..
  also have "\<dots> = of_int m * (u * 2 ^ d)" by simp
  also have "\<dots> = ?x"
    unfolding pq ..
  finally show ?thesis .
qed

lemma binary64_zero [simp]: "binary64 0 = 0"
  by (simp add: binary64_def)

lemma binary64_grid:
  assumes "\<bar>m\<bar> \<le> 2 ^ 53"
  shows "binary64 (of_int m * 2 powi q) = of_int m * 2 powi q"
proof -
  have pos: "binary64 (of_int k * 2 powi q) = of_int k * 2 powi q" if "0 < k" "k \<le> 2 ^ 53" for k
  proof (cases "k = 2 ^ 53")
    case True
    have "of_int k * (2::real) powi q = of_int (2 ^ 52) * 2 powi (q + 1)"
      unfolding True by (simp add: power_int_add)
    then show ?thesis
      using binary64_grid_pos[of "2 ^ 52" "q + 1"] by simp
  next
    case False
    with that have "k < 2 ^ 53" by simp
    with that(1) show ?thesis by (rule binary64_grid_pos)
  qed
  consider "0 < m" | "m = 0" | "m < 0" by linarith
  then show ?thesis
  proof cases
    case 1
    then show ?thesis using assms by (intro pos) simp_all
  next
    case 2
    then show ?thesis by simp
  next
    case 3
    then have "binary64 (of_int (- m) * 2 powi q) = of_int (- m) * 2 powi q"
      using assms by (intro pos) simp_all
    then show ?thesis
      using binary64_minus[of "of_int m * 2 powi q"] by simp
  qed
qed

lemma binary64_of_int:
  assumes "\<bar>k\<bar> \<le> 2 ^ 53"
  shows "binary64 (of_int k) = of_int k"
  using binary64_grid[OF assms, of 0] by simp

lemma binary64_idem: "binary64 (binary64 x) = binary64 x"
proof -
  have pos: "binary64 (binary64 y) = binary64 y" if "0 < y" for y
  proof -
    have "\<bar>roundEven (y / 2 powi (expo y - 52))\<bar> \<le> 2 ^ 53"
      using roundEven_scaled[OF that] by simp
    then show ?thesis
      unfolding binary64_pos[OF that] by (rule binary64_grid)
  qed
  consider "0 < x" | "x = 0" | "x < 0" by linarith
  then show ?thesis
  proof cases
    case 1
    then show ?thesis by (rule pos)
  next
    case 2
    then show ?thesis by simp
  next
    case 3
    then have "binary64 (binary64 (- x)) = binary64 (- x)" by (intro pos) simp
    then show ?thesis by (simp add: binary64_minus)
  qed
qed

lemma binary64_error: "\<bar>binary64 x - x\<bar> \<le> \<bar>x\<bar> / 2 ^ 53"
proof -
  have pos: "\<bar>binary64 y - y\<bar> \<le> y / 2 ^ 53" if "0 < y" for y
  proof -
    let ?u = "(2::real) powi (expo y - 52)"
    let ?n = "roundEven (y / ?u)"
    have u: "0 < ?u" by simp
    have "binary64 y - y = (of_int ?n - y / ?u) * ?u"
      unfolding binary64_pos[OF that] using u by (simp add: field_simps)
    then have "\<bar>binary64 y - y\<bar> = \<bar>of_int ?n - y / ?u\<bar> * ?u"
      using u by (simp add: abs_mult)
    also have "\<dots> \<le> 1 / 2 * ?u"
      using roundEven_near[of "y / ?u"] u by (intro mult_right_mono) simp_all
    also have "\<dots> = 2 powi (expo y) / 2 ^ 53"
      by (simp add: power_int_diff)
    also have "\<dots> \<le> y / 2 ^ 53"
      using expo_bounds(1)[OF that] by (simp add: divide_right_mono)
    finally show ?thesis .
  qed
  consider "0 < x" | "x = 0" | "x < 0" by linarith
  then show ?thesis
  proof cases
    case 1
    then show ?thesis using pos[of x] by simp
  next
    case 2
    then show ?thesis by simp
  next
    case 3
    then have "\<bar>binary64 (- x) - (- x)\<bar> \<le> (- x) / 2 ^ 53" by (intro pos) simp
    then show ?thesis using 3 by (simp add: binary64_minus abs_minus_commute)
  qed
qed

lemma binary64_below_one:
  assumes "0 \<le> x" "x < 1" "binary64 x = x"
  shows "x \<le> 1 - 1 / 2 ^ 53"
proof (rule ccontr)
  assume "\<not> x \<le> 1 - 1 / 2 ^ 53"
  then have big: "1 - 1 / 2 ^ 53 < x" by simp
  then have x: "0 < x" by simp
  have e: "expo x = - 1"
    using x big assms(2) by (intro expo_unique) simp_all
  let ?n = "roundEven (x / 2 powi (- 53))"
  have "of_int ?n * 2 powi (- 53) = x"
    using assms(3) unfolding binary64_pos[OF x] e by simp
  then have n: "of_int ?n = x * 2 ^ 53"
    by (simp add: power_int_minus field_simps)
  have "of_int (2 ^ 53 - 1) < (of_int ?n :: real)"
    unfolding n using big by (simp add: field_simps)
  moreover have "(of_int ?n :: real) < of_int (2 ^ 53)"
    unfolding n using assms(2) by simp
  ultimately have "2 ^ 53 - 1 < ?n" "?n < 2 ^ 53"
    by (simp_all only: of_int_less_iff)
  then show False by linarith
qed

section \<open>The trade loop and the handler\<close>

lemma tradeLoop_trades:
  assumes "tradeLoop e req n w i (c0 + 5 * i, eq, ts, cv) = Some (c', eq', ts', cv')"
  shows "ts' = ts @ map (tradeAt e req w c0) [i..<nat n]
       \<and> eq' = foldl (addProfit e) eq (map (tradeAt e req w c0) [i..<nat n])
       \<and> cv' = cv @ map (\<lambda>j. foldl (addProfit e) eq (map (tradeAt e req w c0) [i..<Suc j]))
                       (filter (\<lambda>j. j mod 3 = 0) [i..<nat n])
       \<and> c' = c0 + 5 * max i (nat n)"
  using assms
proof (induction e req n w i "(c0 + 5 * i, eq, ts, cv)" arbitrary: eq ts cv rule: tradeLoop.induct)
  case (1 e req n w i eq ts cv)
  show ?case
  proof (cases "int i < n")
    case False
    with "1.prems" show ?thesis
      by (simp add: tradeLoop.simps)
  next
    case True
    from True "1.prems" obtain ot ct where
      ot: "tradeTime e req i = Some ot" and ct: "tradeTime e req (i + 1) = Some ct"
      by (auto simp: tradeLoop.simps Let_def split: option.splits)
    let ?p = "tradeProfit e (int i < w) (c0 + 5 * i)"
    let ?t = "makeTrade e req i (c0 + 5 * i) ?p ot ct"
    have t: "?t = tradeAt e req w c0 i"
      using ot ct by (simp add: tradeAt_def)
    have ceq: "c0 + 5 * (i + 1) = c0 + 5 * i + 5" by simp
    have step: "tradeLoop e req n w (i + 1)
        (c0 + 5 * (i + 1), fl e (eq + ?p), ts @ [?t], if i mod 3 = 0 then cv @ [fl e (eq + ?p)] else cv)
        = Some (c', eq', ts', cv')"
      unfolding ceq using "1.prems" True ot ct
      by (subst (asm) tradeLoop.simps) (simp add: Let_def split: if_splits)
    have upt: "[i..<nat n] = i # [Suc i..<nat n]"
      using True by (simp add: upt_conv_Cons)
    have pr: "profit (tradeAt e req w c0 i) = ?p"
      by (simp add: tradeAt_def makeTrade_def)
    note IH = "1.hyps"[OF True refl refl refl ot ct ceq[symmetric] step]
    have first: "fl e (eq + ?p) = addProfit e eq (tradeAt e req w c0 i)"
      by (simp add: addProfit_def pr)
    have shift: "foldl (addProfit e) (fl e (eq + ?p)) (map (tradeAt e req w c0) [i + 1..<Suc j])
               = foldl (addProfit e) eq (map (tradeAt e req w c0) [i..<Suc j])"
      if "i < Suc j" for j
      using that by (simp add: upt_conv_Cons first del: upt_Suc)
    have curve: "map (\<lambda>j. foldl (addProfit e) (fl e (eq + ?p)) (map (tradeAt e req w c0) [i + 1..<Suc j]))
                   (filter (\<lambda>j. j mod 3 = 0) [i + 1..<nat n])
               = map (\<lambda>j. foldl (addProfit e) eq (map (tradeAt e req w c0) [i..<Suc j]))
                   (filter (\<lambda>j. j mod 3 = 0) [i + 1..<nat n])"
    proof (rule map_cong[OF refl])
      fix j assume "j \<in> set (filter (\<lambda>j. j mod 3 = 0) [i + 1..<nat n])"
      then have "i < Suc j" by simp
      then show "foldl (addProfit e) (fl e (eq + ?p)) (map (tradeAt e req w c0) [i + 1..<Suc j])
               = foldl (addProfit e) eq (map (tradeAt e req w c0) [i..<Suc j])"
        by (rule shift)
    qed
    have here: "foldl (addProfit e) eq (map (tradeAt e req w c0) [i..<Suc i]) = fl e (eq + ?p)"
      by (simp add: first)
    have mx: "max (i + 1) (nat n) = max i (nat n)"
      using True by simp
    from IH show ?thesis
      unfolding curve mx
      by (simp add: upt t first here del: upt_Suc)
  qed
qed


lemma runBacktest_Ok:
  assumes "runBacktest e st req = (Ok200 res k, st')"
  shows "\<exists>strategy c bars c'.
           validate req = [] \<and>
           strategies st (strategyId req) = Some strategy \<and>
           tradeLoop e req (drawTotal e) (drawWins e) 0 (2, initialBalance req, [], [initialBalance req])
             = Some (c, finalBalance res, trades res, equityCurve res) \<and>
           generateSimulatedBars e (startDate req) (endDate req) (symbol req) (c + 1) = Some (bars, c') \<and>
           fsOk e \<and> k = length bars \<and>
           totalTrades res = drawTotal e \<and>
           winRate res = drawRate e \<and>
           winningTrades res = drawWins e \<and>
           losingTrades res = drawTotal e - drawWins e \<and>
           totalProfit res = sumProfit e (trades res) \<and>
           profitFactor res =
             \<bar>fl e (sumProfit e (filter (\<lambda>t. profit t > 0) (trades res)) /
                    max 1 \<bar>sumProfit e (filter (\<lambda>t. profit t < 0) (trades res))\<bar>)\<bar> \<and>
           initialBalance res = initialBalance req \<and>
           strategyName res = strategy_name strategy \<and>
           st' = st \<lparr> latest_bars := Some bars,
                      backtestResults := (backtestResults st)(randomUUID e \<mapsto> res) \<rparr>"
  using assms
  unfolding runBacktest_def createBacktestResult_def drawTotal_def drawWins_def drawRate_def Let_def
  by (auto split: if_splits option.splits prod.splits)


lemma rounding_exact: "rounding exact"
  by (simp add: rounding_def exact_def)

lemma rounding_binary64: "rounding binary64"
  unfolding rounding_def
  using binary64_mono binary64_idem binary64_of_int binary64_error by blast

lemma jsRuntime_rounding: "jsRuntime e \<Longrightarrow> rounding (fl e)"
  using rounding_exact rounding_binary64 by (auto simp: jsRuntime_def)

lemma jsRuntime_zeroEnv: "jsRuntime zeroEnv"
  by (simp add: jsRuntime_def zeroEnv_def)

lemma filter_mod3: "filter (\<lambda>j. j mod 3 = 0) [0..<n] = map (\<lambda>k. 3 * k) [0..<(n + 2) div 3]"
proof (induction n)
  case 0
  show ?case by simp
next
  case (Suc n)
  show ?case
  proof (cases "n mod 3 = 0")
    case True
    then have "(Suc n + 2) div 3 = Suc ((n + 2) div 3)" "3 * ((n + 2) div 3) = n"
      by presburger+
    with Suc True show ?thesis by simp
  next
    case False
    then have "(Suc n + 2) div 3 = (n + 2) div 3"
      by presburger
    with Suc False show ?thesis by simp
  qed
qed

lemma nat_ceil3: "nat ((t + 2) div 3) = (nat t + 2) div 3"
proof (cases "0 \<le> t")
  case True
  then obtain n where "t = int n" using nonneg_int_cases by blast
  then show ?thesis
    by (simp add: nat_div_distrib nat_add_distrib) 
next
  case False
  then have "(t + 2) div 3 \<le> 0" by simp
  with False show ?thesis by simp
qed

lemma run_trades:
  assumes "runBacktest e st req = (Ok200 res k, st')"
  shows "trades res = map (tradeAt e req (winningTrades res) 2) [0..<nat (totalTrades res)]"
    and "finalBalance res = foldl (addProfit e) (initialBalance req) (trades res)"
    and "equityCurve res = initialBalance req #
           map (\<lambda>j. runningBalance e (initialBalance req) (trades res) (Suc j))
             (filter (\<lambda>j. j mod 3 = 0) [0..<nat (totalTrades res)])"
proof -
  from runBacktest_Ok[OF assms] obtain c where
    loop: "tradeLoop e req (drawTotal e) (drawWins e) 0 (2, initialBalance req, [], [initialBalance req])
             = Some (c, finalBalance res, trades res, equityCurve res)"
    and tot: "totalTrades res = drawTotal e" and win: "winningTrades res = drawWins e"
    by blast
  let ?n = "nat (totalTrades res)"
  let ?T = "tradeAt e req (winningTrades res) 2"
  from loop have "tradeLoop e req (drawTotal e) (drawWins e) 0 (2 + 5 * 0, initialBalance req, [], [initialBalance req])
             = Some (c, finalBalance res, trades res, equityCurve res)"
    by simp
  from tradeLoop_trades[OF this]
  have ts: "trades res = map ?T [0..<?n]"
    and fb: "finalBalance res = foldl (addProfit e) (initialBalance req) (map ?T [0..<?n])"
    and cv: "equityCurve res = [initialBalance req] @
               map (\<lambda>j. foldl (addProfit e) (initialBalance req) (map ?T [0..<Suc j]))
                 (filter (\<lambda>j. j mod 3 = 0) [0..<?n])"
    unfolding tot win by simp_all
  show "trades res = map ?T [0..<?n]" by (rule ts)
  show "finalBalance res = foldl (addProfit e) (initialBalance req) (trades res)"
    unfolding ts by (rule fb[unfolded ts])
  have "map (\<lambda>j. foldl (addProfit e) (initialBalance req) (map ?T [0..<Suc j]))
                 (filter (\<lambda>j. j mod 3 = 0) [0..<?n])
      = map (\<lambda>j. runningBalance e (initialBalance req) (map ?T [0..<?n]) (Suc j))
             (filter (\<lambda>j. j mod 3 = 0) [0..<?n])"
  proof (rule map_cong[OF refl])
    fix j assume "j \<in> set (filter (\<lambda>j. j mod 3 = 0) [0..<?n])"
    then have "Suc j \<le> ?n" by simp
    then have "take (Suc j) (map ?T [0..<?n]) = map ?T [0..<Suc j]"
      by (simp add: take_map del: upt_Suc)
    then show "foldl (addProfit e) (initialBalance req) (map ?T [0..<Suc j])
             = runningBalance e (initialBalance req) (map ?T [0..<?n]) (Suc j)"
      by (simp only: runningBalance_def)
  qed
  with cv show "equityCurve res = initialBalance req #
           map (\<lambda>j. runningBalance e (initialBalance req) (trades res) (Suc j))
             (filter (\<lambda>j. j mod 3 = 0) [0..<nat (totalTrades res)])"
    using ts by simp
qed

lemma getTime_range: "getTime e s = Some t \<Longrightarrow> \<bar>t\<bar> \<le> maxTime"
  by (auto simp: getTime_def split: option.splits if_splits)

lemma tradeTime_valid:
  assumes "getTime e (startDate req) = Some t0" "t0 + int n * 14400000 \<le> maxTime" "k \<le> n"
  shows "tradeTime e req k = Some (t0 + int k * 14400000)"
proof -
  have "int k * 14400000 \<le> int n * 14400000" using assms(3) by simp
  with getTime_range[OF assms(1)] assms(2) have "\<bar>t0 + int k * 14400000\<bar> \<le> maxTime"
    by linarith
  then show ?thesis
    using assms(1) by (simp add: tradeTime_def toISOString_def)
qed

lemma tradeLoop_Some:
  assumes "getTime e (startDate req) = Some t0" "t0 + n * 14400000 \<le> maxTime"
  shows "\<exists>r. tradeLoop e req n w i s = Some r"
  using assms
proof (induction e req n w i s rule: tradeLoop.induct)
  case (1 e req n w i c equity ts curve)
  show ?case
  proof (cases "int i < n")
    case False
    then show ?thesis by (simp add: tradeLoop.simps)
  next
    case True
    then have nn: "int (nat n) = n" by simp
    have b: "t0 + int (nat n) * 14400000 \<le> maxTime" using "1.prems"(2) nn by simp
    have t1: "tradeTime e req i = Some (t0 + int i * 14400000)"
      by (rule tradeTime_valid[OF "1.prems"(1) b]) (use True in linarith)
    have t2: "tradeTime e req (i + 1) = Some (t0 + int (i + 1) * 14400000)"
      by (rule tradeTime_valid[OF "1.prems"(1) b]) (use True in linarith)
    from "1.IH"[OF True refl refl refl t1 t2 "1.prems"]
    show ?thesis
      using True t1 t2 by (subst tradeLoop.simps) (simp add: Let_def)
  qed
qed

lemma ceil_div_step:
  fixes d :: int
  assumes "0 < d"
  shows "nat ((d + interval - 1) div interval) = Suc (nat ((d - interval + interval - 1) div interval))"
proof -
  have "(d + interval - 1) div interval = (d - 1) div interval + 1"
    by (simp add: interval_def)
  moreover have "0 \<le> (d - 1) div interval"
    using assms by (simp add: interval_def pos_imp_zdiv_nonneg_iff)
  ultimately show ?thesis by simp
qed

lemma barLoop_spec:
  assumes "- maxTime \<le> time" "endT \<le> maxTime"
  shows "\<exists>bs c'. barLoop e vol endT time price c bars = Some (bars @ bs, c') \<and>
           length bs = nat ((endT - time + interval - 1) div interval) \<and>
           (\<forall>i < length bs. bar_time (bs ! i) = time + int i * interval)"
  using assms
proof (induction e vol endT time price c bars rule: barLoop.induct)
  case (1 e vol endT time price c bars)
  show ?case
  proof (cases "time < endT")
    case False
    then have "(endT - time + interval - 1) div interval \<le> (interval - 1) div interval"
      by (intro zdiv_mono1) (simp_all add: interval_def)
    then have "(endT - time + interval - 1) div interval \<le> 0"
      by (simp add: interval_def)
    with False show ?thesis by (simp add: barLoop.simps)
  next
    case True
    with "1.prems" have v: "toISOString (Some time) = Some time"
      by (simp add: toISOString_def)
    obtain bar price' where mb: "makeBar e vol time price c = (bar, price')"
      by (cases "makeBar e vol time price c")
    have bt: "bar_time bar = time"
      using mb by (auto simp: makeBar_def Let_def)
    have "- maxTime \<le> time + interval" using "1.prems"(1) by (simp add: interval_def)
    from "1.IH"[OF True v mb[symmetric] this "1.prems"(2)]
    obtain bs c' where
      r: "barLoop e vol endT (time + interval) price' (c + 5) (bars @ [bar]) = Some ((bars @ [bar]) @ bs, c')"
      and len: "length bs = nat ((endT - (time + interval) + interval - 1) div interval)"
      and tm: "\<forall>i < length bs. bar_time (bs ! i) = time + interval + int i * interval"
      by blast
    have step: "barLoop e vol endT time price c bars = Some (bars @ (bar # bs), c')"
      using True v mb r by (subst barLoop.simps) simp
    have len': "length (bar # bs) = nat ((endT - time + interval - 1) div interval)"
      using ceil_div_step[of "endT - time"] True len by (simp add: algebra_simps)
    have tm': "\<forall>i < length (bar # bs). bar_time ((bar # bs) ! i) = time + int i * interval"
    proof (intro allI impI)
      fix i assume "i < length (bar # bs)"
      then show "bar_time ((bar # bs) ! i) = time + int i * interval"
        using bt tm by (cases i) (simp_all add: algebra_simps)
    qed
    from step len' tm' show ?thesis by blast
  qed
qed

lemma generateSimulatedBars_Some:
  "\<exists>bars c'. generateSimulatedBars e startD endD smb c = Some (bars, c')"
proof (cases "getTime e startD")
  case None
  then show ?thesis by (simp add: generateSimulatedBars_def)
next
  case (Some s)
  show ?thesis
  proof (cases "getTime e endD")
    case None
    then show ?thesis using Some by (simp add: generateSimulatedBars_def)
  next
    case (Some t)
    have "- maxTime \<le> s" "t \<le> maxTime"
      using getTime_range[OF \<open>getTime e startD = Some s\<close>] getTime_range[OF Some] by linarith+
    from barLoop_spec[OF this] show ?thesis
      using Some \<open>getTime e startD = Some s\<close>
      by (simp add: generateSimulatedBars_def Let_def) (metis append_Nil)
  qed
qed

lemma runBacktest_succeeds:
  assumes "validate req = []" "strategies st (strategyId req) = Some strategy"
    and "getTime e (startDate req) = Some t0" "t0 + drawTotal e * 14400000 \<le> maxTime" "fsOk e"
  shows "\<exists>res k st'. runBacktest e st req = (Ok200 res k, st')"
proof -
  from tradeLoop_Some[OF assms(3,4)] obtain c eq ts cv where
    "tradeLoop e req (drawTotal e) (drawWins e) 0 (2, initialBalance req, [], [initialBalance req])
       = Some (c, eq, ts, cv)"
    by (metis prod.exhaust)
  moreover obtain bars c' where
    "generateSimulatedBars e (startDate req) (endDate req) (symbol req) (c + 1) = Some (bars, c')"
    using generateSimulatedBars_Some by blast
  ultimately show ?thesis
    using assms(1,2,5)
    unfolding runBacktest_def createBacktestResult_def drawTotal_def drawWins_def drawRate_def Let_def
    by simp
qed


lemma rounding_mono: "rounding f \<Longrightarrow> x \<le> y \<Longrightarrow> f x \<le> f y"
  by (simp add: rounding_def)

lemma rounding_idem: "rounding f \<Longrightarrow> f (f x) = f x"
  by (simp add: rounding_def)

lemma rounding_of_int: "rounding f \<Longrightarrow> \<bar>k\<bar> \<le> 2 ^ 53 \<Longrightarrow> f (of_int k) = of_int k"
  by (simp add: rounding_def)

lemma rounding_numeral:
  assumes "rounding f"
  shows "f 0 = 0" "f 1 = 1" "f 30 = 30" "f 50 = 50" "f 70 = 70" "f 150 = 150" "f 180 = 180" "f 250 = 250"
  using rounding_of_int[OF assms, of 0] rounding_of_int[OF assms, of 1]
    rounding_of_int[OF assms, of 30] rounding_of_int[OF assms, of 50]
    rounding_of_int[OF assms, of 70] rounding_of_int[OF assms, of 150]
    rounding_of_int[OF assms, of 180] rounding_of_int[OF assms, of 250]
  by simp_all

lemma rounding_between:
  assumes "rounding f" "of_int a \<le> x" "x \<le> of_int b" "\<bar>a\<bar> \<le> 2 ^ 53" "\<bar>b\<bar> \<le> 2 ^ 53"
  shows "of_int a \<le> f x" "f x \<le> of_int b"
  using rounding_mono[OF assms(1,2)] rounding_mono[OF assms(1,3)]
    rounding_of_int[OF assms(1,4)] rounding_of_int[OF assms(1,5)]
  by simp_all

lemma jsRuntime_draw: "jsRuntime e \<Longrightarrow> 0 \<le> mathRandom e k" "jsRuntime e \<Longrightarrow> mathRandom e k < 1"
  by (simp_all add: jsRuntime_def)

lemma drawTotal_bounds:
  assumes "jsRuntime e"
  shows "20 \<le> drawTotal e" "drawTotal e \<le> 70"
proof -
  note r = jsRuntime_rounding[OF assms]
  have "of_int 0 \<le> mathRandom e 0 * 50" "mathRandom e 0 * 50 \<le> of_int 50"
    using jsRuntime_draw[OF assms, of 0] by simp_all
  from rounding_between[OF r this] have "0 \<le> fl e (mathRandom e 0 * 50)" "fl e (mathRandom e 0 * 50) \<le> 50"
    by simp_all
  then have "0 \<le> \<lfloor>fl e (mathRandom e 0 * 50)\<rfloor>" "\<lfloor>fl e (mathRandom e 0 * 50)\<rfloor> \<le> 50"
    by (simp_all add: floor_le_iff)
  then show "20 \<le> drawTotal e" "drawTotal e \<le> 70"
    by (simp_all add: drawTotal_def)
qed

lemma drawRate_bounds:
  assumes "jsRuntime e"
  shows "45 \<le> drawRate e" "drawRate e \<le> 70"
proof -
  note r = jsRuntime_rounding[OF assms]
  have "of_int 0 \<le> mathRandom e 1 * 25" "mathRandom e 1 * 25 \<le> of_int 25"
    using jsRuntime_draw[OF assms, of 1] by simp_all
  from rounding_between[OF r this] have "0 \<le> fl e (mathRandom e 1 * 25)" "fl e (mathRandom e 1 * 25) \<le> 25"
    by simp_all
  then have "of_int 45 \<le> 45 + fl e (mathRandom e 1 * 25)" "45 + fl e (mathRandom e 1 * 25) \<le> of_int 70"
    by simp_all
  from rounding_between[OF r this] show "45 \<le> drawRate e" "drawRate e \<le> 70"
    by (simp_all add: drawRate_def)
qed

lemma drawWins_bounds:
  assumes "jsRuntime e"
  shows "0 \<le> drawWins e" "drawWins e \<le> drawTotal e"
proof -
  note r = jsRuntime_rounding[OF assms]
  let ?n = "drawTotal e"
  have n: "0 \<le> ?n" "\<bar>?n\<bar> \<le> 2 ^ 53"
    using drawTotal_bounds[OF assms] by simp_all
  have "of_int 0 \<le> drawRate e / 100" "drawRate e / 100 \<le> of_int 1"
    using drawRate_bounds[OF assms] by simp_all
  from rounding_between[OF r this] have q: "0 \<le> fl e (drawRate e / 100)" "fl e (drawRate e / 100) \<le> 1"
    by simp_all
  have "of_int 0 \<le> fl e (drawRate e / 100) * of_int ?n"
    using q(1) n(1) by simp
  moreover have "fl e (drawRate e / 100) * of_int ?n \<le> of_int ?n"
    using mult_right_mono[OF q(2), of "of_int ?n"] n(1) by simp
  ultimately have "of_int 0 \<le> fl e (fl e (drawRate e / 100) * of_int ?n)"
    "fl e (fl e (drawRate e / 100) * of_int ?n) \<le> of_int ?n"
    using rounding_between[OF r _ _ _ n(2), of 0] by simp_all
  then show "0 \<le> drawWins e" "drawWins e \<le> drawTotal e"
    by (simp_all add: drawWins_def floor_le_iff)
qed

text \<open>The largest double below 1 and the two products it gives.\<close>

lemma binary64_top_win: "binary64 (binary64 ((1 - 1 / 2 ^ 53) * 200) + 50) < 250"
  by code_simp

lemma binary64_top_loss: "binary64 (binary64 ((1 - 1 / 2 ^ 53) * 150) + 30) < 180"
  by code_simp

lemma tradeProfit_win:
  assumes "jsRuntime e"
  shows "50 \<le> tradeProfit e True c" "tradeProfit e True c < 250"
proof -
  note r = jsRuntime_rounding[OF assms]
  let ?x = "mathRandom e c"
  have x: "0 \<le> ?x" "?x < 1" using jsRuntime_draw[OF assms] by simp_all
  have "fl e 0 \<le> fl e (?x * 200)" using x by (intro rounding_mono[OF r]) simp
  then have nn: "0 \<le> fl e (?x * 200)" by (simp add: rounding_numeral[OF r])
  have "fl e 50 \<le> fl e (fl e (?x * 200) + 50)"
    by (intro rounding_mono[OF r]) (use nn in simp)
  then show "50 \<le> tradeProfit e True c"
    by (simp add: tradeProfit_def rounding_numeral[OF r])
  from assms consider "fl e = exact" | "fl e = binary64" "binary64 ?x = ?x"
    by (auto simp: jsRuntime_def)
  then show "tradeProfit e True c < 250"
  proof cases
    case 1
    then show ?thesis using x by (simp add: tradeProfit_def exact_def)
  next
    case 2
    from binary64_below_one[OF x 2(2)] have "?x * 200 \<le> (1 - 1 / 2 ^ 53) * 200" by simp
    then have "binary64 (?x * 200) \<le> binary64 ((1 - 1 / 2 ^ 53) * 200)" by (rule binary64_mono)
    then have "binary64 (binary64 (?x * 200) + 50) \<le> binary64 (binary64 ((1 - 1 / 2 ^ 53) * 200) + 50)"
      by (intro binary64_mono) simp
    with binary64_top_win show ?thesis
      by (simp add: tradeProfit_def 2(1))
  qed
qed

lemma tradeProfit_loss:
  assumes "jsRuntime e"
  shows "- 180 < tradeProfit e False c" "tradeProfit e False c \<le> - 30"
proof -
  note r = jsRuntime_rounding[OF assms]
  let ?x = "mathRandom e c"
  have x: "0 \<le> ?x" "?x < 1" using jsRuntime_draw[OF assms] by simp_all
  have "fl e 0 \<le> fl e (?x * 150)" using x by (intro rounding_mono[OF r]) simp
  then have nn: "0 \<le> fl e (?x * 150)" by (simp add: rounding_numeral[OF r])
  have "fl e 30 \<le> fl e (fl e (?x * 150) + 30)"
    by (intro rounding_mono[OF r]) (use nn in simp)
  then show "tradeProfit e False c \<le> - 30"
    by (simp add: tradeProfit_def rounding_numeral[OF r])
  from assms consider "fl e = exact" | "fl e = binary64" "binary64 ?x = ?x"
    by (auto simp: jsRuntime_def)
  then show "- 180 < tradeProfit e False c"
  proof cases
    case 1
    then show ?thesis using x by (simp add: tradeProfit_def exact_def)
  next
    case 2
    from binary64_below_one[OF x 2(2)] have "?x * 150 \<le> (1 - 1 / 2 ^ 53) * 150" by simp
    then have "binary64 (?x * 150) \<le> binary64 ((1 - 1 / 2 ^ 53) * 150)" by (rule binary64_mono)
    then have "binary64 (binary64 (?x * 150) + 30) \<le> binary64 (binary64 ((1 - 1 / 2 ^ 53) * 150) + 30)"
      by (intro binary64_mono) simp
    with binary64_top_loss show ?thesis
      by (simp add: tradeProfit_def 2(1))
  qed
qed

lemma profit_tradeAt: "profit (tradeAt e req w c0 j) = tradeProfit e (int j < w) (c0 + 5 * j)"
  by (simp add: tradeAt_def makeTrade_def)

section \<open>Facts about a run\<close>

lemma run_fields:
  assumes "runBacktest e st req = (Ok200 res k, st')"
  shows "totalTrades res = drawTotal e" "winRate res = drawRate e" "winningTrades res = drawWins e"
    "losingTrades res = drawTotal e - drawWins e" "totalProfit res = sumProfit e (trades res)"
    "initialBalance res = initialBalance req" "validate req = []" "fsOk e"
    "profitFactor res =
       \<bar>fl e (sumProfit e (filter (\<lambda>t. profit t > 0) (trades res)) /
              max 1 \<bar>sumProfit e (filter (\<lambda>t. profit t < 0) (trades res))\<bar>)\<bar>"
  using runBacktest_Ok[OF assms] by blast+

lemma filter_less_upt: "m \<le> n \<Longrightarrow> filter (\<lambda>j. j < m) [0..<n] = [0..<m]"
  by (induction n) (auto simp: le_Suc_eq)

lemma filter_not_less_upt: "m \<le> n \<Longrightarrow> filter (\<lambda>j. \<not> j < m) [0..<n] = [m..<n]"
  by (induction n) (auto simp: le_Suc_eq)

lemma run_profit_sign:
  assumes "jsRuntime e"
  shows "0 < profit (tradeAt e req w c0 j) \<longleftrightarrow> int j < w"
    and "profit (tradeAt e req w c0 j) < 0 \<longleftrightarrow> \<not> int j < w"
    and "profit (tradeAt e req w c0 j) \<noteq> 0"
  using tradeProfit_win[OF assms, of "c0 + 5 * j"] tradeProfit_loss[OF assms, of "c0 + 5 * j"]
  by (cases "int j < w"; simp add: profit_tradeAt)+

lemma run_counts:
  assumes "runBacktest e st req = (Ok200 res k, st')" "jsRuntime e"
  shows "20 \<le> totalTrades res" "totalTrades res \<le> 70"
    "0 \<le> winningTrades res" "winningTrades res \<le> totalTrades res"
    "losingTrades res = totalTrades res - winningTrades res"
  using runBacktest_Ok[OF assms(1)] drawTotal_bounds[OF assms(2)] drawWins_bounds[OF assms(2)]
  by auto

lemma resultOf_run: "runBacktest e st req = (Ok200 res k, st') \<Longrightarrow> resultOf (runBacktest e st req) = Some res"
  by (simp add: resultOf_def okResult_def)

lemma demoRun:
  assumes "validate req = []" "strategyId req = ''s1''" "startDate req = ''2024-01-01''"
    and "dateParse e = demoParse" "fsOk e" "jsRuntime e"
  shows "\<exists>res k st'. runBacktest e demoStore req = (Ok200 res k, st')"
proof (rule runBacktest_succeeds)
  show "validate req = []" by (rule assms(1))
  show "strategies demoStore (strategyId req) = Some demoStrategy"
    by (simp add: demoStore_def assms(2))
  show "getTime e (startDate req) = Some 1704067200000"
    by (simp add: getTime_def assms(3,4) demoParse_def maxTime_def)
  show "1704067200000 + drawTotal e * 14400000 \<le> maxTime"
    using drawTotal_bounds(2)[OF assms(6)] by (simp add: maxTime_def)
  show "fsOk e" by (rule assms(5))
qed

lemma validate_demoRequest: "validate demoRequest = []"
  by (simp add: validate_def demoRequest_def)

lemma jsRuntime_halfEnv: "jsRuntime halfEnv"
proof -
  have "binary64 (1 / 2) = 1 / 2"
    using binary64_grid[of 1 "- 1"] by simp
  then show ?thesis by (simp add: jsRuntime_def halfEnv_def)
qed

lemma draws_halfEnv: "drawTotal halfEnv = 20" "drawRate halfEnv = 115 / 2" "drawWins halfEnv = 11"
  by code_simp+

lemma draws_zeroEnv: "drawTotal zeroEnv = 20" "drawRate zeroEnv = 45" "drawWins zeroEnv = 9"
  by code_simp+

lemma zeroRun:
  "\<exists>res k st'. runBacktest zeroEnv demoStore demoRequest = (Ok200 res k, st') \<and>
     totalTrades res = 20 \<and> winningTrades res = 9 \<and> losingTrades res = 11"
proof -
  from demoRun[OF validate_demoRequest _ _ _ _ jsRuntime_zeroEnv]
  obtain res k st' where run: "runBacktest zeroEnv demoStore demoRequest = (Ok200 res k, st')"
    by (auto simp: demoRequest_def zeroEnv_def)
  from runBacktest_Ok[OF run] have "totalTrades res = 20" "winningTrades res = 9" "losingTrades res = 11"
    by (auto simp: draws_zeroEnv)
  with run show ?thesis by blast
qed

lemma tradeProfit_zeroEnv: "tradeProfit zeroEnv True c = 50" "tradeProfit zeroEnv False c = - 30"
proof -
  have "binary64 50 = 50" "binary64 30 = 30"
    using binary64_of_int[of 50] binary64_of_int[of 30] by simp_all
  then show "tradeProfit zeroEnv True c = 50" "tradeProfit zeroEnv False c = - 30"
    by (simp_all add: tradeProfit_def zeroEnv_def)
qed

lemma generateSimulatedBars_valid:
  assumes "getTime e startD = Some s" "getTime e endD = Some t"
  shows "\<exists>bars c'. generateSimulatedBars e startD endD smb c = Some (bars, c') \<and>
           length bars = nat ((t - s + interval - 1) div interval) \<and>
           (\<forall>i < length bars. bar_time (bars ! i) = s + int i * interval)"
proof -
  have "- maxTime \<le> s" "t \<le> maxTime"
    using getTime_range[OF assms(1)] getTime_range[OF assms(2)] by linarith+
  from barLoop_spec[OF this, of e _ _ c "[]"] show ?thesis
    using assms by (simp add: generateSimulatedBars_def Let_def)
qed

lemma toFixed5_mono:
  assumes "x \<le> y"
  shows "toFixed5 x \<le> toFixed5 y"
proof -
  define g :: "real \<Rightarrow> real" where "g a = real_of_int \<lfloor>a * 100000 + 1 / 2\<rfloor> / 100000" for a
  have tf: "toFixed5 a = (if a < 0 then - g (- a) else g a)" for a
    by (simp add: toFixed5_def g_def)
  have up: "g a \<le> g b" if "a \<le> b" for a b
  proof -
    from that have "\<lfloor>a * 100000 + 1 / 2\<rfloor> \<le> \<lfloor>b * 100000 + 1 / 2\<rfloor>"
      by (intro floor_mono) simp
    then have "real_of_int \<lfloor>a * 100000 + 1 / 2\<rfloor> \<le> real_of_int \<lfloor>b * 100000 + 1 / 2\<rfloor>"
      by (simp only: of_int_le_iff)
    then show ?thesis by (simp add: g_def divide_right_mono)
  qed
  have nn: "0 \<le> g a" if "0 \<le> a" for a
  proof -
    from that have "0 \<le> \<lfloor>a * 100000 + 1 / 2\<rfloor>" by simp
    then show ?thesis by (simp add: g_def)
  qed
  consider "0 \<le> x" | "x < 0" "0 \<le> y" | "y < 0" by linarith
  then show ?thesis
  proof cases
    case 1
    with assms have "0 \<le> y" by simp
    with 1 up[OF assms] show ?thesis by (simp add: tf)
  next
    case 2
    from nn[of "- x"] nn[of y] 2 show ?thesis by (simp add: tf)
  next
    case 3
    with assms have "x < 0" by simp
    moreover have "g (- y) \<le> g (- x)" using assms by (intro up) simp
    ultimately show ?thesis using 3 by (simp add: tf)
  qed
qed

lemma makeBar_brackets:
  assumes "rounding (fl e)" "0 \<le> vol" "fl e price = price"
    and "0 \<le> mathRandom e (c + 1)" "0 \<le> mathRandom e (c + 2)"
    and "makeBar e vol time price c = (bar, price')"
  shows "barBrackets bar" "fl e price' = price'"
proof -
  note r = assms(1)
  define cls where "cls = fl e (price + fl e (fl e (fl e (mathRandom e c - fl e (1 / 2)) * 2) * vol))"
  define high where "high = fl e (max price cls + fl e (mathRandom e (c + 1) * vol))"
  define low where "low = fl e (min price cls - fl e (mathRandom e (c + 2) * vol))"
  have bar: "bar_open bar = toFixed5 price" "bar_close bar = toFixed5 cls"
    "bar_high bar = toFixed5 high" "bar_low bar = toFixed5 low" and p': "price' = cls"
    using assms(6) by (auto simp: makeBar_def Let_def cls_def high_def low_def)
  have fc: "fl e cls = cls" unfolding cls_def by (rule rounding_idem[OF r])
  then show "fl e price' = price'" by (simp add: p')
  have fmax: "fl e (max price cls) = max price cls" and fmin: "fl e (min price cls) = min price cls"
    using assms(3) fc by (auto simp: max_def min_def)
  have j1: "0 \<le> fl e (mathRandom e (c + 1) * vol)"
    using rounding_mono[OF r, of 0 "mathRandom e (c + 1) * vol"] assms(2,4)
    by (simp add: rounding_numeral(1)[OF r])
  have j2: "0 \<le> fl e (mathRandom e (c + 2) * vol)"
    using rounding_mono[OF r, of 0 "mathRandom e (c + 2) * vol"] assms(2,5)
    by (simp add: rounding_numeral(1)[OF r])
  have "max price cls \<le> max price cls + fl e (mathRandom e (c + 1) * vol)"
    using j1 by linarith
  then have "fl e (max price cls) \<le> high"
    unfolding high_def by (rule rounding_mono[OF r])
  then have hi: "max price cls \<le> high" by (simp only: fmax)
  have "min price cls - fl e (mathRandom e (c + 2) * vol) \<le> min price cls"
    using j2 by linarith
  then have "low \<le> fl e (min price cls)"
    unfolding low_def by (rule rounding_mono[OF r])
  then have lo: "low \<le> min price cls" by (simp only: fmin)
  have "toFixed5 low \<le> toFixed5 price" "toFixed5 low \<le> toFixed5 cls"
    "toFixed5 price \<le> toFixed5 high" "toFixed5 cls \<le> toFixed5 high"
    using lo hi by (auto intro!: toFixed5_mono)
  then show "barBrackets bar"
    by (simp add: barBrackets_def bar)
qed

lemma barLoop_brackets:
  assumes "barLoop e vol endT time price c bars = Some (bs, c')"
    and "rounding (fl e)" "0 \<le> vol" "fl e price = price" "\<forall>k. 0 \<le> mathRandom e k"
    and "\<forall>b \<in> set bars. barBrackets b"
  shows "\<forall>b \<in> set bs. barBrackets b"
  using assms
proof (induction e vol endT time price c bars rule: barLoop.induct)
  case (1 e vol endT time price c bars)
  show ?case
  proof (cases "time < endT")
    case False
    with "1.prems"(1,6) show ?thesis by (simp add: barLoop.simps)
  next
    case True
    from True "1.prems"(1) obtain stamp where v: "toISOString (Some time) = Some stamp"
      by (subst (asm) barLoop.simps) (auto split: option.splits)
    obtain bar price' where mb: "makeBar e vol stamp price c = (bar, price')"
      by (cases "makeBar e vol stamp price c")
    have step: "barLoop e vol endT (time + interval) price' (c + 5) (bars @ [bar]) = Some (bs, c')"
      using "1.prems"(1) True v mb by (subst (asm) barLoop.simps) simp
    from makeBar_brackets[OF "1.prems"(2,3,4) _ _ mb] "1.prems"(5)
    have ok: "barBrackets bar" and fp: "fl e price' = price'" by simp_all
    from ok "1.prems"(6) have all: "\<forall>b \<in> set (bars @ [bar]). barBrackets b" by simp
    from "1.IH"[OF True v mb[symmetric] step "1.prems"(2,3) fp "1.prems"(5) all]
    show ?thesis .
  qed
qed

lemma big_fold:
  "foldl (\<lambda>s p. binary64 (s + p)) 100000000000000000
     (map (\<lambda>j. if j < (9::nat) then 50 else - 30) [0..<20]) = 100000000000000080"
  by code_simp

lemma small_fold: "foldl (\<lambda>s p. binary64 (s + p)) 0 (map (\<lambda>j. if j < (9::nat) then 50 else - 30) [0..<20]) = 120"
  by code_simp

lemma sum_list_abs_bound:
  fixes ps :: "real list"
  assumes "\<forall>p \<in> set ps. \<bar>p\<bar> \<le> M"
  shows "\<bar>sum_list ps\<bar> \<le> real (length ps) * M"
  using assms
proof (induction ps)
  case Nil
  show ?case by simp
next
  case (Cons p ps)
  then have "\<bar>sum_list ps\<bar> \<le> real (length ps) * M" "\<bar>p\<bar> \<le> M" by simp_all
  then show ?case by (simp add: algebra_simps)
qed

lemma foldl_round_error:
  fixes f :: "real \<Rightarrow> real"
  assumes err: "\<And>x. \<bar>f x - x\<bar> \<le> \<bar>x\<bar> / 2 ^ 53"
    and b: "\<bar>b\<bar> \<le> B" and B: "B \<le> 10 ^ 8"
    and ps: "\<forall>p \<in> set ps. \<bar>p\<bar> \<le> 250" and len: "length ps \<le> 70"
  shows "\<bar>foldl (\<lambda>s p. f (s + p)) b ps - (b + sum_list ps)\<bar> \<le> real (length ps) * ((B + 17501) / 2 ^ 53)"
  using ps len
proof (induction ps rule: rev_induct)
  case Nil
  show ?case by simp
next
  case (snoc p ps)
  define E where "E = foldl (\<lambda>s p. f (s + p)) b ps"
  define S where "S = sum_list ps"
  define k where "k = real (length ps)"
  define h where "h = (B + 17501) / 2 ^ 53"
  have B0: "0 \<le> B" using b by linarith
  have k: "0 \<le> k" "k \<le> 69" using snoc.prems(2) by (simp_all add: k_def)
  have p: "\<bar>p\<bar> \<le> 250" using snoc.prems(1) by simp
  have IH: "\<bar>E - (b + S)\<bar> \<le> k * h"
    unfolding E_def S_def k_def h_def using snoc.IH snoc.prems by simp
  have S: "\<bar>S\<bar> \<le> k * 250"
    unfolding S_def k_def using snoc.prems(1) by (intro sum_list_abs_bound) simp
  have h: "0 \<le> h" "h \<le> 1 / 69"
    using B0 B by (simp_all add: h_def field_simps)
  have "k * h \<le> 69 * (1 / 69)"
    using k h by (intro mult_mono) simp_all
  then have kh: "k * h \<le> 1" by simp
  have "k * 250 \<le> 69 * 250" using k by simp
  with S have S': "\<bar>S\<bar> \<le> 17250" by simp
  have "\<bar>E + p\<bar> \<le> \<bar>E - (b + S)\<bar> + \<bar>b\<bar> + \<bar>S\<bar> + \<bar>p\<bar>" by linarith
  also have "\<dots> \<le> 1 + B + 17250 + 250" using IH kh b S' p by linarith
  finally have mag: "\<bar>E + p\<bar> \<le> B + 17501" by simp
  have "\<bar>f (E + p) - (E + p)\<bar> \<le> \<bar>E + p\<bar> / 2 ^ 53" by (rule err)
  also have "\<dots> \<le> h" unfolding h_def using mag by (simp add: divide_right_mono)
  finally have step: "\<bar>f (E + p) - (E + p)\<bar> \<le> h" .
  have "\<bar>f (E + p) - (b + (S + p))\<bar> \<le> \<bar>f (E + p) - (E + p)\<bar> + \<bar>E - (b + S)\<bar>" by linarith
  also have "\<dots> \<le> h + k * h" using step IH by linarith
  also have "\<dots> = (k + 1) * h" by (simp add: algebra_simps)
  finally have "\<bar>f (E + p) - (b + (S + p))\<bar> \<le> (k + 1) * h" .
  then show ?case
    by (simp add: E_def S_def k_def h_def algebra_simps)
qed

lemma foldl_addProfit: "foldl (addProfit e) b ts = foldl (\<lambda>s p. fl e (s + p)) b (map profit ts)"
  by (induction ts arbitrary: b) (simp_all add: addProfit_def)

lemma sumProfit_fold: "sumProfit e ts = foldl (\<lambda>s p. fl e (s + p)) 0 (map profit ts)"
  unfolding sumProfit_def by (induction ts rule: rev_induct) simp_all

lemma run_profit_abs:
  assumes "runBacktest e st req = (Ok200 res k, st')" "jsRuntime e"
  shows "\<forall>p \<in> set (map profit (trades res)). \<bar>p\<bar> \<le> 250"
proof -
  have "\<bar>profit (tradeAt e req w c0 j)\<bar> \<le> 250" for w c0 j
    using tradeProfit_win[OF assms(2), of "c0 + 5 * j"] tradeProfit_loss[OF assms(2), of "c0 + 5 * j"]
    by (cases "int j < w") (simp_all add: profit_tradeAt)
  then show ?thesis
    by (subst run_trades(1)[OF assms(1)]) simp
qed

lemma run_validated: "runBacktest e st req = (Ok200 res k, st') \<Longrightarrow> 100 \<le> initialBalance req"
  using runBacktest_Ok[of e st req res k st']
  by (auto simp: validate_def split: if_splits)

lemma balance_identity_exact:
  assumes "runBacktest e st req = (Ok200 res k, st')" and "fl e = exact"
  shows "finalBalance res = initialBalance req + totalProfit res"
proof -
  have sh: "foldl (\<lambda>s p. s + p) b ps = b + foldl (\<lambda>s p. s + p) 0 ps" for b :: real and ps
    by (induction ps rule: rev_induct) simp_all
  have "finalBalance res = foldl (\<lambda>s p. s + p) (initialBalance req) (map profit (trades res))"
    using run_trades(2)[OF assms(1)] by (simp add: foldl_addProfit assms(2) exact_def)
  moreover have "totalProfit res = foldl (\<lambda>s p. s + p) 0 (map profit (trades res))"
    using run_fields(5)[OF assms(1)] by (simp add: sumProfit_fold assms(2) exact_def)
  ultimately show ?thesis
    using sh[of "initialBalance req" "map profit (trades res)"] by simp
qed

lemma validate_bigRequest: "validate bigRequest = []"
  by (simp add: validate_def bigRequest_def)

lemma binary64_dyadic: "binary64 (1 / 2) = 1 / 2" "binary64 (3 / 4) = 3 / 4"
  using binary64_grid[of 1 "- 1"] binary64_grid[of 3 "- 2"] by simp_all

lemma jsRuntime_bugEnv: "jsRuntime bugEnv"
  by (simp add: jsRuntime_def bugEnv_def binary64_dyadic)

lemma draws_bugEnv: "drawTotal bugEnv = 20" "drawWins bugEnv = 9"
  by code_simp+

lemma bug_prices:
  "binary64 (1 + binary64 (1 / 2 * binary64 (1 / 10))) = 4728779608739021 / 4503599627370496"
  "binary64 (1 + binary64 (0 * binary64 (1 / 10))) = 1"
  "binary64 (binary64 (0 * 200) + 50) = 50"
  by code_simp+

lemma getTime_zeroEnv:
  "getTime zeroEnv ''2024-01-01'' = Some 1704067200000"
  "getTime zeroEnv ''2024-01-01T00:00:00.001Z'' = Some 1704067200001"
  "getTime zeroEnv ''2024-01-01T00:10:00Z'' = Some 1704067800000"
  by (simp_all add: getTime_def zeroEnv_def demoParse_def maxTime_def)

lemma rounding_error: "rounding f \<Longrightarrow> \<bar>f x - x\<bar> \<le> \<bar>x\<bar> / 2 ^ 53"
  by (simp add: rounding_def)

lemma drawWins_near_rate:
  assumes "jsRuntime e"
  shows "\<bar>fl e (fl e (drawRate e / 100) * of_int (drawTotal e)) - drawRate e / 100 * of_int (drawTotal e)\<bar>
           \<le> 119 / 2 ^ 53"
proof -
  note r = jsRuntime_rounding[OF assms]
  define n where "n = real_of_int (drawTotal e)"
  define q where "q = fl e (drawRate e / 100)"
  define y where "y = fl e (q * n)"
  have n: "20 \<le> n" "n \<le> 70" using drawTotal_bounds[OF assms] by (simp_all add: n_def)
  have rate: "45 \<le> drawRate e" "drawRate e \<le> 70" by (rule drawRate_bounds[OF assms])+
  have "of_int 0 \<le> drawRate e / 100" "drawRate e / 100 \<le> of_int 1"
    using rate by simp_all
  from rounding_between[OF r this] have q: "0 \<le> q" "q \<le> 1"
    by (simp_all add: q_def)
  have "\<bar>q - drawRate e / 100\<bar> \<le> \<bar>drawRate e / 100\<bar> / 2 ^ 53"
    unfolding q_def by (rule rounding_error[OF r])
  also have "\<dots> \<le> (7 / 10) / 2 ^ 53"
    using rate by (intro divide_right_mono) simp_all
  finally have e1: "\<bar>q - drawRate e / 100\<bar> \<le> (7 / 10) / 2 ^ 53" .
  have "q * n \<le> 1 * 70" using q n by (intro mult_mono) simp_all
  moreover have "0 \<le> q * n" using q n by simp
  ultimately have qn: "\<bar>q * n\<bar> \<le> 70" by simp
  have "\<bar>y - q * n\<bar> \<le> \<bar>q * n\<bar> / 2 ^ 53"
    unfolding y_def by (rule rounding_error[OF r])
  also have "\<dots> \<le> 70 / 2 ^ 53"
    using qn by (intro divide_right_mono) simp_all
  finally have e2: "\<bar>y - q * n\<bar> \<le> 70 / 2 ^ 53" .
  have "\<bar>(q - drawRate e / 100) * n\<bar> = \<bar>q - drawRate e / 100\<bar> * n"
    using n by (simp add: abs_mult)
  also have "\<dots> \<le> (7 / 10) / 2 ^ 53 * 70"
    using e1 n by (intro mult_mono) simp_all
  finally have e3: "\<bar>(q - drawRate e / 100) * n\<bar> \<le> 49 / 2 ^ 53" by simp
  have "y - drawRate e / 100 * n = (y - q * n) + (q - drawRate e / 100) * n"
    by (simp add: algebra_simps)
  then have "\<bar>y - drawRate e / 100 * n\<bar> \<le> \<bar>y - q * n\<bar> + \<bar>(q - drawRate e / 100) * n\<bar>"
    by linarith
  also have "\<dots> \<le> 70 / 2 ^ 53 + 49 / 2 ^ 53" using e2 e3 by linarith
  finally show ?thesis by (simp add: y_def q_def n_def)
qed

lemma winRate_near_ratio:
  assumes "jsRuntime e"
  shows "of_int (drawWins e) / of_int (drawTotal e) * 100 - 1 / 10 ^ 9 \<le> drawRate e"
    and "drawRate e < of_int (drawWins e + 1) / of_int (drawTotal e) * 100 + 1 / 10 ^ 9"
proof -
  define n where "n = real_of_int (drawTotal e)"
  define y where "y = fl e (fl e (drawRate e / 100) * of_int (drawTotal e))"
  define w where "w = real_of_int (drawWins e)"
  define x where "x = drawRate e"
  have n: "20 \<le> n" "n \<le> 70" using drawTotal_bounds[OF assms] by (simp_all add: n_def)
  have w: "w \<le> y" "y < w + 1"
    unfolding w_def y_def drawWins_def by linarith+
  have d: "\<bar>y - x / 100 * n\<bar> \<le> 119 / 2 ^ 53"
    using drawWins_near_rate[OF assms] by (simp add: y_def x_def n_def)
  define X where "X = x * n"
  define dl :: real where "dl = 119 / 2 ^ 53"
  define eps :: real where "eps = 1 / 10 ^ 9"
  define en where "en = eps * n"
  have xn: "x / 100 * n = X / 100" by (simp add: X_def)
  have tiny: "dl * 100 \<le> en"
  proof -
    have "dl * 100 \<le> eps * 20" by (simp add: dl_def eps_def)
    also have "\<dots> \<le> eps * n" using n by (intro mult_left_mono) (simp_all add: eps_def)
    finally show ?thesis by (simp add: en_def)
  qed
  have lo: "w * 100 - dl * 100 \<le> X" using w d unfolding xn dl_def by linarith
  have hi: "X < w * 100 + 100 + dl * 100" using w d unfolding xn dl_def by linarith
  have "w * 100 - en \<le> X" using lo tiny by linarith
  then have "(w * 100 - eps * n) / n \<le> x"
    using n by (simp add: field_simps X_def en_def)
  then have a: "w / n * 100 - 1 / 10 ^ 9 \<le> x"
    using n by (simp add: field_simps eps_def)
  have "X < w * 100 + 100 + en" using hi tiny by linarith
  then have "X < (w + 1) * 100 + en" by (simp add: algebra_simps)
  then have "x < ((w + 1) * 100 + eps * n) / n"
    using n by (simp add: field_simps X_def en_def)
  then have b: "x < (w + 1) / n * 100 + 1 / 10 ^ 9"
    using n by (simp add: field_simps eps_def)
  from a show "of_int (drawWins e) / of_int (drawTotal e) * 100 - 1 / 10 ^ 9 \<le> drawRate e"
    by (simp add: w_def n_def x_def)
  from b show "drawRate e < of_int (drawWins e + 1) / of_int (drawTotal e) * 100 + 1 / 10 ^ 9"
    by (simp add: w_def n_def x_def)
qed

section \<open>The claims\<close>

text \<open>
  C1, as amended. After a successful run \<open>totalTrades\<close> is at least 20, so the case
  \<open>totalTrades = 0\<close> never arises. \<open>winRate\<close> is the percentage that was drawn,
  \<open>45 + 25 r\<close> for the second draw \<open>r\<close>, and \<open>winningTrades\<close> is derived from it as
  \<open>\<lfloor>winRate / 100 * totalTrades\<rfloor>\<close>. Hence \<open>winRate\<close> is not
  \<open>winningTrades / totalTrades * 100\<close> but lies (up to rounding, \<open>10^-9\<close>) between that
  ratio and the ratio for one more winning trade.
\<close>

theorem winRate_is_the_drawn_rate:
  assumes "runBacktest e st req = (Ok200 res k, st')" and "jsRuntime e"
  shows "20 \<le> totalTrades res \<and>
         winRate res = fl e (45 + fl e (mathRandom e 1 * 25)) \<and>
         45 \<le> winRate res \<and> winRate res \<le> 70 \<and>
         winningTrades res = \<lfloor>fl e (fl e (winRate res / 100) * of_int (totalTrades res))\<rfloor> \<and>
         of_int (winningTrades res) / of_int (totalTrades res) * 100 - 1 / 10 ^ 9 \<le> winRate res \<and>
         winRate res < of_int (winningTrades res + 1) / of_int (totalTrades res) * 100 + 1 / 10 ^ 9"
proof -
  note f = run_fields(1-3)[OF assms(1)]
  have "winRate res = fl e (45 + fl e (mathRandom e 1 * 25))"
    by (simp add: f drawRate_def)
  moreover have "winningTrades res = \<lfloor>fl e (fl e (winRate res / 100) * of_int (totalTrades res))\<rfloor>"
    by (simp add: f drawWins_def)
  ultimately show ?thesis
    using drawTotal_bounds(1)[OF assms(2)] drawRate_bounds[OF assms(2)] winRate_near_ratio[OF assms(2)]
    unfolding f[symmetric] by blast
qed

theorem winRate_is_the_drawn_rate_witness:
  "\<exists>res k st'. runBacktest halfEnv demoStore demoRequest = (Ok200 res k, st') \<and>
     20 \<le> totalTrades res \<and> winRate res = 115 / 2 \<and> winningTrades res = 11"
proof -
  from demoRun[OF validate_demoRequest _ _ _ _ jsRuntime_halfEnv]
  obtain res k st' where run: "runBacktest halfEnv demoStore demoRequest = (Ok200 res k, st')"
    by (auto simp: demoRequest_def halfEnv_def)
  from runBacktest_Ok[OF run] have d: "totalTrades res = 20" "winRate res = 115 / 2" "winningTrades res = 11"
    by (auto simp: draws_halfEnv)
  from winRate_is_the_drawn_rate[OF run jsRuntime_halfEnv] d
  have "20 \<le> totalTrades res \<and> winRate res = 115 / 2 \<and> winningTrades res = 11"
    by simp
  with run show ?thesis by blast
qed

text \<open>The claim as stated fails when the second draw is \<open>1 / 2\<close> and the others are \<open>0\<close>:
  20 trades, 11 of them winning, and a stored \<open>winRate\<close> of 57.5, while
  \<open>11 / 20 * 100\<close> is 55 (computed exactly or in doubles).\<close>

theorem winRate_differs_from_win_ratio:
  "map_option winRate (resultOf (runBacktest halfEnv demoStore demoRequest)) = Some (115 / 2) \<and>
   map_option winningTrades (resultOf (runBacktest halfEnv demoStore demoRequest)) = Some 11 \<and>
   map_option totalTrades (resultOf (runBacktest halfEnv demoStore demoRequest)) = Some 20 \<and>
   (115 / 2 :: real) \<noteq> 11 / 20 * 100 \<and>
   (115 / 2 :: real) \<noteq> binary64 (binary64 (11 / 20) * 100)"
proof -
  from demoRun[OF validate_demoRequest _ _ _ _ jsRuntime_halfEnv]
  obtain res k st' where run: "runBacktest halfEnv demoStore demoRequest = (Ok200 res k, st')"
    by (auto simp: demoRequest_def halfEnv_def)
  from runBacktest_Ok[OF run] have d: "totalTrades res = 20" "winRate res = 115 / 2" "winningTrades res = 11"
    by (auto simp: draws_halfEnv)
  have "(115 / 2 :: real) \<noteq> binary64 (binary64 (11 / 20) * 100)"
    by code_simp
  then show ?thesis
    unfolding resultOf_run[OF run] using d by simp
qed

text \<open>
  C2, as amended. When the span \<open>endDate - startDate\<close> is positive and smaller than one
  interval, the bar synthesizer returns exactly one bar, stamped \<open>startDate\<close>, and raises
  no error: the loop runs while \<open>time < end\<close>, so its first pass happens whenever
  \<open>startDate < endDate\<close>.
\<close>

theorem short_span_gives_one_bar:
  assumes "getTime e startD = Some s" and "getTime e endD = Some t"
    and "0 < t - s" and "t - s < interval"
  shows "\<exists>bar c'. generateSimulatedBars e startD endD smb c = Some ([bar], c') \<and> bar_time bar = s"
proof -
  from generateSimulatedBars_valid[OF assms(1,2)] obtain bars c' where
    g: "generateSimulatedBars e startD endD smb c = Some (bars, c')"
    and len: "length bars = nat ((t - s + interval - 1) div interval)"
    and tm: "\<forall>i < length bars. bar_time (bars ! i) = s + int i * interval"
    by blast
  have "(t - s + interval - 1) div interval = 1"
    using assms(3,4) by (simp add: interval_def div_pos_pos_trivial add.commute[of _ "300000::int"]) 
  with len have "length bars = 1" by simp
  then obtain bar where b: "bars = [bar]"
    by (cases bars) auto
  with tm have "bar_time bar = s" by simp
  with g b show ?thesis by blast
qed

theorem short_span_gives_one_bar_witness:
  "\<exists>bar c'. generateSimulatedBars zeroEnv ''2024-01-01'' ''2024-01-01T00:00:00.001Z'' ''EURUSD'' 0
       = Some ([bar], c') \<and> bar_time bar = 1704067200000"
  using short_span_gives_one_bar[OF getTime_zeroEnv(1) getTime_zeroEnv(2), of "''EURUSD''" 0]
  by (simp add: interval_def)

text \<open>The claim as stated fails for a span of one millisecond: one bar comes back.\<close>

theorem one_millisecond_span_is_not_empty:
  "getTime zeroEnv ''2024-01-01'' = Some 1704067200000 \<and>
   getTime zeroEnv ''2024-01-01T00:00:00.001Z'' = Some 1704067200001 \<and>
   barCount (generateSimulatedBars zeroEnv ''2024-01-01'' ''2024-01-01T00:00:00.001Z'' ''EURUSD'' 0) = Some 1"
proof -
  from generateSimulatedBars_valid[OF getTime_zeroEnv(1) getTime_zeroEnv(2), of "''EURUSD''" 0]
  have "barCount (generateSimulatedBars zeroEnv ''2024-01-01'' ''2024-01-01T00:00:00.001Z'' ''EURUSD'' 0) = Some 1"
    by (auto simp: barCount_def interval_def)
  then show ?thesis using getTime_zeroEnv by simp
qed

text \<open>
  C3, as amended. The bar synthesizer never fails: there is no \<open>InvalidRangeError\<close>. It
  returns a non-empty sequence exactly when both dates are valid and
  \<open>startDate < endDate\<close>, and the empty sequence otherwise, in particular when
  \<open>startDate \<ge> endDate\<close>.
\<close>

theorem bars_nonempty_iff_start_before_end:
  "\<exists>bars c'. generateSimulatedBars e startD endD smb c = Some (bars, c') \<and>
     (bars \<noteq> [] \<longleftrightarrow> (\<exists>s t. getTime e startD = Some s \<and> getTime e endD = Some t \<and> s < t))"
proof (cases "\<exists>s t. getTime e startD = Some s \<and> getTime e endD = Some t")
  case False
  then have "generateSimulatedBars e startD endD smb c = Some ([], c)"
    by (auto simp: generateSimulatedBars_def split: option.splits)
  with False show ?thesis by auto
next
  case True
  then obtain s t where st: "getTime e startD = Some s" "getTime e endD = Some t" by blast
  from generateSimulatedBars_valid[OF st] obtain bars c' where
    g: "generateSimulatedBars e startD endD smb c = Some (bars, c')"
    and len: "length bars = nat ((t - s + interval - 1) div interval)"
    by blast
  have "0 < (t - s + interval - 1) div interval \<longleftrightarrow> s < t"
    by (auto simp: interval_def pos_imp_zdiv_pos_iff)
  with len have "bars \<noteq> [] \<longleftrightarrow> s < t"
    by (cases bars) auto
  with g st show ?thesis by auto
qed

theorem bars_nonempty_iff_start_before_end_witness:
  "\<exists>bars c'. generateSimulatedBars zeroEnv ''2024-01-01T00:10:00Z'' ''2024-01-01'' ''EURUSD'' 0 = Some (bars, c') \<and>
     bars = []"
  using bars_nonempty_iff_start_before_end[of zeroEnv "''2024-01-01T00:10:00Z''" "''2024-01-01''" "''EURUSD''" 0]
  by (auto simp: getTime_zeroEnv)

text \<open>The claim as stated fails for equal dates: the call returns the empty sequence and
  no error; no draw is consumed.\<close>

theorem equal_dates_return_no_bars_without_error:
  "generateSimulatedBars zeroEnv ''2024-01-01'' ''2024-01-01'' ''EURUSD'' 0 = Some ([], 0)"
  by (simp add: generateSimulatedBars_def getTime_zeroEnv barLoop.simps)

text \<open>
  C4 does not hold of the handler: side, open price and close price of a trade are drawn
  independently of its profit. With the draws of \<open>bugEnv\<close>, trade 0 is a BUY whose
  close price 1 is below its open price (about 1.05), and its profit is +50.
\<close>

theorem buy_trade_wins_while_price_falls:
  "map_option (sideOfTrade 0) (resultOf (runBacktest bugEnv demoStore demoRequest)) = Some BUY \<and>
   map_option (openPriceOfTrade 0) (resultOf (runBacktest bugEnv demoStore demoRequest))
     = Some (4728779608739021 / 4503599627370496) \<and>
   map_option (closePriceOfTrade 0) (resultOf (runBacktest bugEnv demoStore demoRequest)) = Some 1 \<and>
   map_option (profitOfTrade 0) (resultOf (runBacktest bugEnv demoStore demoRequest)) = Some 50 \<and>
   (1 :: real) < 4728779608739021 / 4503599627370496"
proof -
  from demoRun[OF validate_demoRequest _ _ _ _ jsRuntime_bugEnv]
  obtain res k st' where run: "runBacktest bugEnv demoStore demoRequest = (Ok200 res k, st')"
    by (auto simp: demoRequest_def bugEnv_def)
  note d = run_fields[OF run]
  have t: "trades res ! 0 = tradeAt bugEnv demoRequest 9 2 0"
    by (subst run_trades(1)[OF run]) (simp add: d draws_bugEnv)
  have "trade_type (trades res ! 0) = BUY"
    unfolding t by (simp add: tradeAt_def makeTrade_def bugEnv_def binary64_dyadic)
  moreover have "openPrice (trades res ! 0) = 4728779608739021 / 4503599627370496"
    unfolding t using bug_prices(1) by (simp add: tradeAt_def makeTrade_def bugEnv_def)
  moreover have "closePrice (trades res ! 0) = 1"
    unfolding t using bug_prices(2) by (simp add: tradeAt_def makeTrade_def bugEnv_def)
  moreover have "profit (trades res ! 0) = 50"
    unfolding t using bug_prices(3) by (simp add: profit_tradeAt tradeProfit_def bugEnv_def)
  ultimately show ?thesis
    unfolding resultOf_run[OF run]
    by (simp add: sideOfTrade_def openPriceOfTrade_def closePriceOfTrade_def profitOfTrade_def)
qed

text \<open>
  C5, as amended. After a successful run with \<open>initialBalance \<le> 10^8\<close>,
  \<open>finalBalance\<close> equals \<open>initialBalance + totalProfit\<close> within \<open>10^-6\<close>.
  (\<open>finalBalance\<close> adds the profits to the initial balance one by one, \<open>totalProfit\<close>
  adds them to 0; each addition is rounded. In exact arithmetic the two agree for
  every balance, lemma \<open>balance_identity_exact\<close>.)
\<close>

theorem balance_identity_within_tolerance:
  assumes "runBacktest e st req = (Ok200 res k, st')" and "jsRuntime e"
    and "initialBalance req \<le> 10 ^ 8"
  shows "\<bar>finalBalance res - (initialBalance req + totalProfit res)\<bar> \<le> 1 / 10 ^ 6"
proof -
  let ?ps = "map profit (trades res)"
  let ?b = "initialBalance req"
  have err: "\<bar>fl e x - x\<bar> \<le> \<bar>x\<bar> / 2 ^ 53" for x
    using jsRuntime_rounding[OF assms(2)] by (simp add: rounding_def)
  have ps: "\<forall>p \<in> set ?ps. \<bar>p\<bar> \<le> 250" by (rule run_profit_abs[OF assms(1,2)])
  have len: "length ?ps \<le> 70"
    using run_counts(2)[OF assms(1,2)] run_trades(1)[OF assms(1)]
    by (metis length_map length_upt diff_zero nat_le_iff of_nat_numeral)
  have n: "real (length ?ps) \<le> 70" using len by simp
  have b: "\<bar>?b\<bar> \<le> 10 ^ 8" using run_validated[OF assms(1)] assms(3) by simp
  have fb: "finalBalance res = foldl (\<lambda>s p. fl e (s + p)) ?b ?ps"
    using run_trades(2)[OF assms(1)] by (simp add: foldl_addProfit)
  have tp: "totalProfit res = foldl (\<lambda>s p. fl e (s + p)) 0 ?ps"
    using run_fields(5)[OF assms(1)] by (simp add: sumProfit_fold)
  have e1: "\<bar>finalBalance res - (?b + sum_list ?ps)\<bar> \<le> real (length ?ps) * ((10 ^ 8 + 17501) / 2 ^ 53)"
    unfolding fb by (rule foldl_round_error[OF err b _ ps len]) simp
  have e2: "\<bar>totalProfit res - (0 + sum_list ?ps)\<bar> \<le> real (length ?ps) * ((0 + 17501) / 2 ^ 53)"
    unfolding tp by (rule foldl_round_error[OF err _ _ ps len]) simp_all
  have "real (length ?ps) * ((10 ^ 8 + 17501) / 2 ^ 53) \<le> 70 * ((10 ^ 8 + 17501) / 2 ^ 53)"
    using n by (intro mult_right_mono) simp_all
  moreover have "real (length ?ps) * ((0 + 17501) / 2 ^ 53) \<le> 70 * ((0 + 17501) / 2 ^ 53)"
    using n by (intro mult_right_mono) simp_all
  ultimately have "\<bar>finalBalance res - (?b + totalProfit res)\<bar>
      \<le> 70 * ((10 ^ 8 + 17501) / 2 ^ 53) + 70 * ((0 + 17501) / 2 ^ 53)"
    using e1 e2 by linarith
  also have "\<dots> \<le> (1 / 10 ^ 6 :: real)" by simp
  finally show ?thesis .
qed

theorem balance_identity_within_tolerance_witness:
  "\<exists>res k st'. runBacktest zeroEnv demoStore demoRequest = (Ok200 res k, st') \<and>
     \<bar>finalBalance res - (10000 + totalProfit res)\<bar> \<le> 1 / 10 ^ 6"
proof -
  from zeroRun obtain res k st' where
    run: "runBacktest zeroEnv demoStore demoRequest = (Ok200 res k, st')"
    by blast
  have "initialBalance demoRequest \<le> 10 ^ 8" by (simp add: demoRequest_def)
  from balance_identity_within_tolerance[OF run jsRuntime_zeroEnv this]
  have "\<bar>finalBalance res - (10000 + totalProfit res)\<bar> \<le> 1 / 10 ^ 6"
    by (simp add: demoRequest_def)
  with run show ?thesis by blast
qed

text \<open>The claim as stated fails in double arithmetic for an initial balance of
  \<open>10^17\<close>, where doubles are 16 apart: with every draw \<open>0\<close> the nine profits of 50 and
  eleven of -30 move the running balance by 48 and -32, so \<open>finalBalance\<close> is
  \<open>10^17 + 80\<close> while \<open>totalProfit\<close> is 120.\<close>

theorem large_balance_breaks_tolerance:
  "map_option initialBalance (resultOf (runBacktest zeroEnv demoStore bigRequest)) = Some 100000000000000000 \<and>
   map_option finalBalance (resultOf (runBacktest zeroEnv demoStore bigRequest)) = Some 100000000000000080 \<and>
   map_option totalProfit (resultOf (runBacktest zeroEnv demoStore bigRequest)) = Some 120 \<and>
   \<not> \<bar>100000000000000080 - (100000000000000000 + 120)\<bar> \<le> (1 / 10 ^ 6 :: real) \<and>
   \<not> \<bar>100000000000000080 - binary64 (100000000000000000 + 120)\<bar> \<le> (1 / 10 ^ 6 :: real)"
proof -
  have r: "binary64 (100000000000000000 + 120) = 100000000000000128"
    by code_simp
  from demoRun[OF validate_bigRequest _ _ _ _ jsRuntime_zeroEnv]
  obtain res k st' where run: "runBacktest zeroEnv demoStore bigRequest = (Ok200 res k, st')"
    by (auto simp: bigRequest_def zeroEnv_def)
  note d = run_fields[OF run]
  have ps: "map profit (trades res) = map (\<lambda>j. if j < (9::nat) then 50 else - 30) [0..<20]"
    by (subst run_trades(1)[OF run]) (simp add: d draws_zeroEnv profit_tradeAt tradeProfit_zeroEnv o_def)
  have f: "fl zeroEnv = binary64" by (simp add: zeroEnv_def)
  have i: "initialBalance bigRequest = 100000000000000000" by (simp add: bigRequest_def)
  have "finalBalance res = 100000000000000080"
    unfolding run_trades(2)[OF run] foldl_addProfit ps f i by (rule big_fold)
  moreover have "totalProfit res = 120"
    unfolding d(5) sumProfit_fold ps f by (rule small_fold)
  moreover have "initialBalance res = 100000000000000000"
    using d(6) i by simp
  ultimately show ?thesis
    unfolding resultOf_run[OF run] r by simp
qed

text \<open>
  C6. Every bar the synthesizer returns satisfies, on its prices as formatted to 5
  decimal places, \<open>low \<le> min open close\<close> and \<open>max open close \<le> high\<close>.
\<close>

theorem bars_bracket_open_and_close:
  assumes "generateSimulatedBars e startD endD smb c = Some (bars, c')" and "jsRuntime e"
  shows "\<forall>b \<in> set bars.
           bar_low b \<le> min (bar_open b) (bar_close b) \<and> max (bar_open b) (bar_close b) \<le> bar_high b"
proof -
  note r = jsRuntime_rounding[OF assms(2)]
  let ?price = "if str_includes smb ''JPY'' then 150 else fl e (11 / 10)"
  let ?vol = "if str_includes smb ''JPY'' then fl e (1 / 2) else fl e (5 / 10000)"
  have p: "fl e ?price = ?price"
    by (simp add: rounding_idem[OF r] rounding_numeral[OF r])
  have "fl e 0 \<le> fl e (1 / 2)" "fl e 0 \<le> fl e (5 / 10000)"
    by (intro rounding_mono[OF r]; simp)+
  then have v: "0 \<le> ?vol"
    by (simp add: rounding_numeral(1)[OF r])
  have d: "\<forall>k. 0 \<le> mathRandom e k"
    using jsRuntime_draw(1)[OF assms(2)] by simp
  have "\<forall>b \<in> set bars. barBrackets b"
  proof (cases "\<exists>s t. getTime e startD = Some s \<and> getTime e endD = Some t")
    case False
    with assms(1) have "bars = []"
      by (auto simp: generateSimulatedBars_def split: option.splits)
    then show ?thesis by simp
  next
    case True
    then obtain s t where st: "getTime e startD = Some s" "getTime e endD = Some t" by blast
    with assms(1) have "barLoop e ?vol t s ?price c [] = Some (bars, c')"
      by (simp add: generateSimulatedBars_def Let_def)
    from barLoop_brackets[OF this r v p d] show ?thesis by simp
  qed
  then show ?thesis by (simp add: barBrackets_def)
qed

theorem bars_bracket_open_and_close_witness:
  "\<exists>bars c'. generateSimulatedBars zeroEnv ''2024-01-01'' ''2024-01-01T00:10:00Z'' ''EURUSD'' 0 = Some (bars, c') \<and>
     length bars = 2 \<and>
     bar_low (bars ! 1) \<le> min (bar_open (bars ! 1)) (bar_close (bars ! 1)) \<and>
     max (bar_open (bars ! 1)) (bar_close (bars ! 1)) \<le> bar_high (bars ! 1)"
proof -
  from generateSimulatedBars_valid[OF getTime_zeroEnv(1) getTime_zeroEnv(3), of "''EURUSD''" 0]
  obtain bars c' where
    g: "generateSimulatedBars zeroEnv ''2024-01-01'' ''2024-01-01T00:10:00Z'' ''EURUSD'' 0 = Some (bars, c')"
    and len: "length bars = 2"
    by (auto simp: interval_def)
  from len have "bars ! 1 \<in> set bars" by simp
  with bars_bracket_open_and_close[OF g jsRuntime_zeroEnv] have
    "bar_low (bars ! 1) \<le> min (bar_open (bars ! 1)) (bar_close (bars ! 1)) \<and>
     max (bar_open (bars ! 1)) (bar_close (bars ! 1)) \<le> bar_high (bars ! 1)"
    by blast
  with g len show ?thesis by blast
qed

text \<open>
  C7, as amended. After a successful run there are \<open>totalTrades\<close> trades; trade \<open>i\<close> is a
  win (positive profit) exactly when \<open>i < winningTrades\<close>; a winning profit lies in
  \<open>[50, 250)\<close> and a losing profit in \<open>(-180, -30]\<close>, for every value of the draws.
\<close>

theorem wins_first_with_profit_ranges:
  assumes "runBacktest e st req = (Ok200 res k, st')" and "jsRuntime e"
  shows "length (trades res) = nat (totalTrades res) \<and>
         (\<forall>i < length (trades res).
            (0 < profit (trades res ! i) \<longleftrightarrow> int i < winningTrades res) \<and>
            (if int i < winningTrades res
             then 50 \<le> profit (trades res ! i) \<and> profit (trades res ! i) < 250
             else - 180 < profit (trades res ! i) \<and> profit (trades res ! i) \<le> - 30))"
proof -
  note ts = run_trades(1)[OF assms(1)]
  have len: "length (trades res) = nat (totalTrades res)"
    by (subst ts) simp
  have "(0 < profit (trades res ! i) \<longleftrightarrow> int i < winningTrades res) \<and>
            (if int i < winningTrades res
             then 50 \<le> profit (trades res ! i) \<and> profit (trades res ! i) < 250
             else - 180 < profit (trades res ! i) \<and> profit (trades res ! i) \<le> - 30)"
    if "i < length (trades res)" for i
  proof -
    have "trades res ! i = tradeAt e req (winningTrades res) 2 i"
      using that len by (subst ts) simp
    then show ?thesis
      using tradeProfit_win[OF assms(2), of "2 + 5 * i"] tradeProfit_loss[OF assms(2), of "2 + 5 * i"]
      by (simp add: profit_tradeAt)
  qed
  with len show ?thesis by blast
qed

theorem wins_first_with_profit_ranges_witness:
  "\<exists>res k st'. runBacktest zeroEnv demoStore demoRequest = (Ok200 res k, st') \<and>
     length (trades res) = 20 \<and> winningTrades res = 9 \<and>
     50 \<le> profit (trades res ! 8) \<and> profit (trades res ! 8) < 250 \<and>
     - 180 < profit (trades res ! 9) \<and> profit (trades res ! 9) \<le> - 30"
proof -
  from zeroRun obtain res k st' where
    run: "runBacktest zeroEnv demoStore demoRequest = (Ok200 res k, st')"
    and n: "totalTrades res = 20" and w: "winningTrades res = 9"
    by blast
  from wins_first_with_profit_ranges[OF run jsRuntime_zeroEnv] have
    len: "length (trades res) = 20" and
    each: "\<And>i. i < length (trades res) \<Longrightarrow>
            (if int i < winningTrades res
             then 50 \<le> profit (trades res ! i) \<and> profit (trades res ! i) < 250
             else - 180 < profit (trades res ! i) \<and> profit (trades res ! i) \<le> - 30)"
    unfolding n by simp_all
  from each[of 8] each[of 9] have
    "50 \<le> profit (trades res ! 8) \<and> profit (trades res ! 8) < 250 \<and>
     - 180 < profit (trades res ! 9) \<and> profit (trades res ! 9) \<le> - 30"
    unfolding len w by simp
  with run len w show ?thesis by blast
qed

text \<open>The claim as stated gives the losing interval as \<open>[-180, -30)\<close>; a draw of \<open>0\<close> gives
  the losing profit \<open>-30\<close>, as for trade 19 of the run in which every draw is \<open>0\<close>.\<close>

theorem losing_profit_can_be_minus_30:
  "map_option winningTrades (resultOf (runBacktest zeroEnv demoStore demoRequest)) = Some 9 \<and>
   map_option (profitOfTrade 19) (resultOf (runBacktest zeroEnv demoStore demoRequest)) = Some (- 30) \<and>
   \<not> ((- 30 :: real) < - 30)"
proof -
  from zeroRun obtain res k st' where
    run: "runBacktest zeroEnv demoStore demoRequest = (Ok200 res k, st')"
    and n: "totalTrades res = 20" and w: "winningTrades res = 9"
    by blast
  have "trades res ! 19 = tradeAt zeroEnv demoRequest 9 2 19"
    by (subst run_trades(1)[OF run]) (simp add: n w)
  then have "profitOfTrade 19 res = - 30"
    by (simp add: profitOfTrade_def profit_tradeAt tradeProfit_zeroEnv)
  then show ?thesis
    unfolding resultOf_run[OF run] using w by simp
qed

text \<open>
  C8, as amended. A request whose \<open>strategyId\<close> is not a key of the strategy map never
  changes the state: no result is stored and the bar file is not written. The answer is
  404 when the request passes the schema, and 400 (validation comes first) when it does
  not.
\<close>

theorem missing_strategy_leaves_state:
  assumes "strategies st (strategyId req) = None"
  shows "runBacktest e st req =
           (if validate req = [] then Status404 else Status400 (validate req), st)"
  using assms by (simp add: runBacktest_def)

theorem missing_strategy_leaves_state_witness:
  "strategies demoStore (strategyId ghostValidRequest) = None \<and>
   runBacktest zeroEnv demoStore ghostValidRequest = (Status404, demoStore)"
proof -
  have h: "strategies demoStore (strategyId ghostValidRequest) = None"
    by (simp add: demoStore_def ghostValidRequest_def)
  have v: "validate ghostValidRequest = []"
    by (simp add: validate_def ghostValidRequest_def)
  show ?thesis
    using h missing_strategy_leaves_state[OF h, of zeroEnv] v by simp
qed

text \<open>The claim as stated fails on a request with an unknown strategy and a balance
  below the minimum: the answer is 400, not 404.\<close>

theorem invalid_request_with_missing_strategy_is_400:
  "strategies demoStore (strategyId ghostRequest) = None \<and>
   fst (runBacktest zeroEnv demoStore ghostRequest) = Status400 [''Minimum balance is 100''] \<and>
   fst (runBacktest zeroEnv demoStore ghostRequest) \<noteq> Status404"
  by (simp add: runBacktest_def validate_def ghostRequest_def demoStore_def)

text \<open>
  C9. After a successful run the equity curve has \<open>1 + \<lceil>totalTrades / 3\<rceil>\<close> entries: the
  initial balance, then the running balance after trades \<open>1, 4, 7, \<dots>\<close> (those whose
  0-based index is a multiple of 3).
\<close>

theorem equityCurve_sampling:
  assumes "runBacktest e st req = (Ok200 res k, st')"
  shows "length (equityCurve res) = 1 + nat ((totalTrades res + 2) div 3) \<and>
         equityCurve res ! 0 = initialBalance req \<and>
         (\<forall>m < nat ((totalTrades res + 2) div 3).
            equityCurve res ! (m + 1) = runningBalance e (initialBalance req) (trades res) (3 * m + 1))"
  unfolding run_trades(3)[OF assms] filter_mod3 nat_ceil3
  by simp

theorem equityCurve_sampling_witness:
  "\<exists>res k st'. runBacktest zeroEnv demoStore demoRequest = (Ok200 res k, st') \<and>
     length (equityCurve res) = 8 \<and>
     equityCurve res ! 0 = 10000 \<and>
     equityCurve res ! 7 = runningBalance zeroEnv 10000 (trades res) 19"
proof -
  from zeroRun obtain res k st' where
    run: "runBacktest zeroEnv demoStore demoRequest = (Ok200 res k, st')" and n: "totalTrades res = 20"
    by blast
  have i: "initialBalance demoRequest = 10000" by (simp add: demoRequest_def)
  from equityCurve_sampling[OF run] have
    len: "length (equityCurve res) = 1 + nat ((totalTrades res + 2) div 3)" and
    first: "equityCurve res ! 0 = initialBalance demoRequest" and
    rest: "\<forall>m < nat ((totalTrades res + 2) div 3).
            equityCurve res ! (m + 1) = runningBalance zeroEnv (initialBalance demoRequest) (trades res) (3 * m + 1)"
    by blast+
  have "equityCurve res ! 7 = runningBalance zeroEnv 10000 (trades res) 19"
    using rest[rule_format, of 6] unfolding n i by simp
  with len first have
    "length (equityCurve res) = 8 \<and> equityCurve res ! 0 = 10000 \<and>
     equityCurve res ! 7 = runningBalance zeroEnv 10000 (trades res) 19"
    unfolding n i by simp
  then show ?thesis using run by auto
qed

text \<open>
  C10. After a successful run no trade has profit 0, the trades with positive profit
  are \<open>winningTrades\<close> many and those with negative profit \<open>losingTrades\<close> many; the
  two filters of the profit factor select exactly the first \<open>winningTrades\<close> trades
  and the remaining ones.
\<close>

theorem no_zero_profit_and_counts:
  assumes "runBacktest e st req = (Ok200 res k, st')" and "jsRuntime e"
  shows "(\<forall>t \<in> set (trades res). profit t \<noteq> 0) \<and>
         int (length (filter (\<lambda>t. profit t > 0) (trades res))) = winningTrades res \<and>
         int (length (filter (\<lambda>t. profit t < 0) (trades res))) = losingTrades res \<and>
         filter (\<lambda>t. profit t > 0) (trades res) = take (nat (winningTrades res)) (trades res) \<and>
         filter (\<lambda>t. profit t < 0) (trades res) = drop (nat (winningTrades res)) (trades res) \<and>
         profitFactor res =
           \<bar>fl e (sumProfit e (take (nat (winningTrades res)) (trades res)) /
                  max 1 \<bar>sumProfit e (drop (nat (winningTrades res)) (trades res))\<bar>)\<bar>"
proof -
  let ?w = "winningTrades res" and ?n = "nat (totalTrades res)"
  let ?T = "tradeAt e req ?w 2"
  note ts = run_trades(1)[OF assms(1)]
  note cnt = run_counts[OF assms]
  have wn: "nat ?w \<le> ?n" using cnt by simp
  have lt: "int j < ?w \<longleftrightarrow> j < nat ?w" for j using cnt(3) by linarith
  have nz: "\<forall>t \<in> set (trades res). profit t \<noteq> 0"
    by (subst ts) (simp add: run_profit_sign(3)[OF assms(2)])
  have pos: "filter (\<lambda>t. profit t > 0) (trades res) = map ?T [0..<nat ?w]"
    by (subst ts) (simp add: filter_map o_def run_profit_sign(1)[OF assms(2)] lt filter_less_upt[OF wn])
  have neg: "filter (\<lambda>t. profit t < 0) (trades res) = map ?T [nat ?w..<?n]"
    by (subst ts) (simp add: filter_map o_def run_profit_sign(2)[OF assms(2)] lt filter_not_less_upt[OF wn])
  have tk: "take (nat ?w) (trades res) = map ?T [0..<nat ?w]"
    using wn by (subst ts) (simp add: take_map)
  have dr: "drop (nat ?w) (trades res) = map ?T [nat ?w..<?n]"
    by (subst ts) (simp add: drop_map)
  have pf: "profitFactor res =
           \<bar>fl e (sumProfit e (take (nat (winningTrades res)) (trades res)) /
                  max 1 \<bar>sumProfit e (drop (nat (winningTrades res)) (trades res))\<bar>)\<bar>"
    unfolding run_fields(9)[OF assms(1)] pos neg tk dr ..
  have "int (length (filter (\<lambda>t. profit t > 0) (trades res))) = winningTrades res"
    unfolding pos using cnt(3) by simp
  moreover have "int (length (filter (\<lambda>t. profit t < 0) (trades res))) = losingTrades res"
    unfolding neg using cnt wn by simp
  moreover have "filter (\<lambda>t. profit t > 0) (trades res) = take (nat (winningTrades res)) (trades res)"
    unfolding pos tk ..
  moreover have "filter (\<lambda>t. profit t < 0) (trades res) = drop (nat (winningTrades res)) (trades res)"
    unfolding neg dr ..
  ultimately show ?thesis
    using nz pf by blast
qed

theorem no_zero_profit_and_counts_witness:
  "\<exists>res k st'. runBacktest zeroEnv demoStore demoRequest = (Ok200 res k, st') \<and>
     length (filter (\<lambda>t. profit t > 0) (trades res)) = 9 \<and>
     length (filter (\<lambda>t. profit t < 0) (trades res)) = 11 \<and>
     filter (\<lambda>t. profit t > 0) (trades res) = take 9 (trades res) \<and>
     filter (\<lambda>t. profit t < 0) (trades res) = drop 9 (trades res)"
proof -
  from zeroRun obtain res k st' where
    run: "runBacktest zeroEnv demoStore demoRequest = (Ok200 res k, st')"
    and n: "totalTrades res = 20" and w: "winningTrades res = 9" and l: "losingTrades res = 11"
    by blast
  from no_zero_profit_and_counts[OF run jsRuntime_zeroEnv] have
    a: "int (length (filter (\<lambda>t. profit t > 0) (trades res))) = winningTrades res" and
    b: "int (length (filter (\<lambda>t. profit t < 0) (trades res))) = losingTrades res" and
    c: "filter (\<lambda>t. profit t > 0) (trades res) = take (nat (winningTrades res)) (trades res)" and
    d: "filter (\<lambda>t. profit t < 0) (trades res) = drop (nat (winningTrades res)) (trades res)"
    by blast+
  have "length (filter (\<lambda>t. profit t > 0) (trades res)) = 9"
    using a unfolding w by simp
  moreover have "length (filter (\<lambda>t. profit t < 0) (trades res)) = 11"
    using b unfolding l by simp
  moreover have "filter (\<lambda>t. profit t > 0) (trades res) = take 9 (trades res)"
    using c unfolding w by simp
  moreover have "filter (\<lambda>t. profit t < 0) (trades res) = drop 9 (trades res)"
    using d unfolding w by simp
  ultimately show ?thesis using run by blast
qed

end
